theory Spec2Isabelle
  imports Main "HOL-Library.Word" "HOL-Library.Sublist"
begin

unbundle bit_operations_syntax

section \<open>The C library as wg-quick.c uses it\<close>

text \<open>
  A C string is modelled by the list of its characters before the terminating NUL.
  Memory allocation is taken to succeed: the \<^verbatim>\<open>exit(errno)\<close> branches of
  \<^verbatim>\<open>xmalloc\<close> and \<^verbatim>\<open>xstrdup\<close> are the only exits of the source that
  the model leaves out.
\<close>

abbreviation NL :: char where "NL \<equiv> CHR 0x0A"
abbreviation TAB :: char where "TAB \<equiv> CHR 0x09"
abbreviation QUOTE :: char where "QUOTE \<equiv> CHR 0x27"
abbreviation BACKSLASH :: char where "BACKSLASH \<equiv> CHR 0x5C"

text \<open>
  \<^verbatim>\<open>isspace\<close> in the C locale: space, \<^verbatim>\<open>\t \n \v \f \r\<close>, and no character
  beyond ASCII.
\<close>

definition isspace :: "char \<Rightarrow> bool" where
  "isspace c \<longleftrightarrow> c \<in> set [CHR 0x20, CHR 0x09, CHR 0x0A, CHR 0x0B, CHR 0x0C, CHR 0x0D]"

definition isdigit :: "char \<Rightarrow> bool" where
  "isdigit c \<longleftrightarrow> 48 \<le> (of_char c :: nat) \<and> (of_char c :: nat) \<le> 57"

text \<open>\<^verbatim>\<open>tolower\<close> in the C locale: only \<^verbatim>\<open>A\<close>..\<^verbatim>\<open>Z\<close> change.\<close>

definition tolower :: "char \<Rightarrow> char" where
  "tolower c =
     (case map_of (zip ''ABCDEFGHIJKLMNOPQRSTUVWXYZ'' ''abcdefghijklmnopqrstuvwxyz'') c of
        None \<Rightarrow> c
      | Some l \<Rightarrow> l)"

text \<open>\<^verbatim>\<open>!strcasecmp(a, b)\<close> and \<^verbatim>\<open>!strncasecmp(a, b, n)\<close>.\<close>

definition strcasecmp_eq :: "string \<Rightarrow> string \<Rightarrow> bool" where
  "strcasecmp_eq a b \<longleftrightarrow> map tolower a = map tolower b"

definition strncasecmp_eq :: "string \<Rightarrow> string \<Rightarrow> nat \<Rightarrow> bool" where
  "strncasecmp_eq a b n \<longleftrightarrow> map tolower (take n a) = map tolower (take n b)"

text \<open>\<^verbatim>\<open>strchr(s, c) != NULL\<close> is \<open>c \<in> set s\<close>. \<^verbatim>\<open>strstr(s, t) != NULL\<close>:\<close>

fun strstr :: "string \<Rightarrow> string \<Rightarrow> bool" where
  "strstr [] t = (t = [])"
| "strstr (c # cs) t = (take (length t) (c # cs) = t \<or> strstr cs t)"

text \<open>
  The tokens that the loop \<^verbatim>\<open>for (t = strtok(s, d); t; t = strtok(NULL, d))\<close> visits:
  the maximal non-empty runs of characters of \<open>s\<close> that are not in \<open>d\<close>.
\<close>

fun strtok_from :: "string \<Rightarrow> string \<Rightarrow> string \<Rightarrow> string list" where
  "strtok_from d tok [] = (if tok = [] then [] else [tok])"
| "strtok_from d tok (c # cs) =
     (if c \<in> set d then (if tok = [] then [] else [tok]) @ strtok_from d [] cs
      else strtok_from d (tok @ [c]) cs)"

definition strtok_all :: "string \<Rightarrow> string \<Rightarrow> string list" where
  "strtok_all d s = strtok_from d [] s"

text \<open>
  \<^verbatim>\<open>atoi\<close>: leading white space, an optional sign, then the decimal digits that follow.
  The C standard leaves \<^verbatim>\<open>atoi\<close> undefined when the value does not fit an
  \<^verbatim>\<open>int\<close>; the model returns the mathematical value, and the callers below convert it
  to the width of the variable they store it in.
\<close>

fun digits_val :: "nat \<Rightarrow> string \<Rightarrow> nat" where
  "digits_val acc [] = acc"
| "digits_val acc (c # cs) =
     (if isdigit c then digits_val (10 * acc + ((of_char c :: nat) - 48)) cs else acc)"

definition atoi :: "string \<Rightarrow> int" where
  "atoi s =
     (case dropWhile isspace s of
        [] \<Rightarrow> 0
      | c # cs \<Rightarrow>
          if c = CHR ''-'' then - int (digits_val 0 cs)
          else if c = CHR ''+'' then int (digits_val 0 cs)
          else int (digits_val 0 (c # cs)))"

text \<open>
  \<^verbatim>\<open>strtoul(s, NULL, 16)\<close> on the text that \<^verbatim>\<open>([0-9a-f]+)\<close> matched; the saturation
  at \<^verbatim>\<open>ULONG_MAX\<close> is not modelled.
\<close>

definition hex_digit :: "char \<Rightarrow> nat option" where
  "hex_digit c =
     (let n = (of_char c :: nat) in
      if 48 \<le> n \<and> n \<le> 57 then Some (n - 48)
      else if 97 \<le> n \<and> n \<le> 102 then Some (n - 87)
      else if 65 \<le> n \<and> n \<le> 70 then Some (n - 55)
      else None)"

fun hex_val :: "nat \<Rightarrow> string \<Rightarrow> nat" where
  "hex_val acc [] = acc"
| "hex_val acc (c # cs) =
     (case hex_digit c of None \<Rightarrow> acc | Some d \<Rightarrow> hex_val (16 * acc + d) cs)"

definition strtoul16 :: "string \<Rightarrow> nat" where
  "strtoul16 s = hex_val 0 s"

text \<open>The conversions \<^verbatim>\<open>%u\<close>, \<^verbatim>\<open>%lu\<close> (\<open>dec\<close>) and \<^verbatim>\<open>%d\<close> (\<open>dec_int\<close>).\<close>

fun dec :: "nat \<Rightarrow> string" where
  "dec n = (if n < 10 then [''0123456789'' ! n]
            else dec (n div 10) @ [''0123456789'' ! (n mod 10)])"

declare dec.simps [simp del]

definition dec_int :: "int \<Rightarrow> string" where
  "dec_int i = (if i < 0 then CHR ''-'' # dec (nat (- i)) else dec (nat i))"


section \<open>Loading the configuration: the line loop of \<^verbatim>\<open>parse_options\<close>\<close>

text \<open>
  Lines 552--589 of wg-quick.c. The file is the list of lines that \<^verbatim>\<open>getline\<close>
  returns, each with its line terminator. A field is \<open>None\<close> while the C pointer is
  \<^verbatim>\<open>NULL\<close>.
\<close>

record options =
  opt_config :: "string option"
  opt_mtu :: "32 word"
  opt_addrs :: "string option"
  opt_dnses :: "string option"

definition concat_and_free :: "string option \<Rightarrow> string \<Rightarrow> string \<Rightarrow> string" where
  "concat_and_free orig delim new_line =
     (case orig of None \<Rightarrow> new_line | Some s \<Rightarrow> s @ delim @ new_line)"

text \<open>The copy \<^verbatim>\<open>clean\<close> of a line: every character that is not white space.\<close>

definition clean_of :: "string \<Rightarrow> string" where
  "clean_of line = filter (\<lambda>c. \<not> isspace c) line"

text \<open>One iteration of the \<^verbatim>\<open>while (getline(...) >= 0)\<close> loop.\<close>

definition parse_line :: "string \<Rightarrow> bool \<times> options \<Rightarrow> bool \<times> options" where
  "parse_line line s =
     (let clean = clean_of line;
          len = length clean;
          sec1 = (if take 1 clean = ''['' then False else fst s);
          in_interface_section = (if strcasecmp_eq clean ''[Interface]'' then True else sec1);
          opts = snd s
      in if in_interface_section \<and> strncasecmp_eq clean ''Address='' 8 \<and> len > 8
         then (in_interface_section,
               opts\<lparr>opt_addrs := Some (concat_and_free (opt_addrs opts) '','' (drop 8 clean))\<rparr>)
         else if in_interface_section \<and> strncasecmp_eq clean ''DNS='' 4 \<and> len > 4
         then (in_interface_section,
               opts\<lparr>opt_dnses := Some (concat_and_free (opt_dnses opts) '','' (drop 4 clean))\<rparr>)
         else if in_interface_section \<and> strncasecmp_eq clean ''MTU='' 4 \<and> len > 4
         then (in_interface_section, opts\<lparr>opt_mtu := word_of_int (atoi (drop 4 clean))\<rparr>)
         else (in_interface_section,
               opts\<lparr>opt_config := Some (concat_and_free (opt_config opts) '''' line)\<rparr>))"

definition options_init :: options where
  "options_init = \<lparr>opt_config = None, opt_mtu = 0, opt_addrs = None, opt_dnses = None\<rparr>"

definition parse_loop :: "string list \<Rightarrow> bool \<times> options" where
  "parse_loop lines = foldl (\<lambda>s line. parse_line line s) (False, options_init) lines"

text \<open>The descriptor fields after the loop, with \<^verbatim>\<open>NULL\<close> replaced by the empty string.\<close>

record descriptor =
  d_config :: string
  d_mtu :: "32 word"
  d_addrs :: string
  d_dnses :: string

definition parse_options :: "string list \<Rightarrow> descriptor" where
  "parse_options lines =
     (let opts = snd (parse_loop lines) in
      \<lparr>d_config = (case opt_config opts of None \<Rightarrow> '''' | Some s \<Rightarrow> s),
       d_mtu = opt_mtu opts,
       d_addrs = (case opt_addrs opts of None \<Rightarrow> '''' | Some s \<Rightarrow> s),
       d_dnses = (case opt_dnses opts of None \<Rightarrow> '''' | Some s \<Rightarrow> s)\<rparr>)"


section \<open>The network id: the loop of \<^verbatim>\<open>up_if\<close>\<close>

text \<open>
  \<^verbatim>\<open>random() & 0xfffe\<close>, stored in an \<^verbatim>\<open>unsigned int\<close>. \<^verbatim>\<open>random\<close> returns a
  \<^verbatim>\<open>long\<close>; the mask leaves a value between 0 and 65534 whatever the \<^verbatim>\<open>long\<close> is.
\<close>

definition mask_even16 :: "int \<Rightarrow> nat" where
  "mask_even16 r = nat (r AND 0xfffe)"

text \<open>
  \<^verbatim>\<open>while (*netid < 4096) *netid = random() & 0xfffe;\<close> where \<open>rnd i\<close> is the value of
  the \<open>i\<close>-th call of \<^verbatim>\<open>random\<close> after \<^verbatim>\<open>srandom\<close>. The loop need not end:
  \<open>None\<close> is the run that never leaves it.
\<close>

partial_function (option) netid_loop :: "(nat \<Rightarrow> int) \<Rightarrow> nat \<Rightarrow> nat \<Rightarrow> nat option" where
  "netid_loop rnd i netid =
     (if netid < 4096 then netid_loop rnd (Suc i) (mask_even16 (rnd i)) else Some netid)"

declare netid_loop.simps [code]

section \<open>The process and the outside world\<close>

text \<open>
  What the process does to the outside world, in order: what it prints, the commands it
  hands to \<^verbatim>\<open>system\<close>, and the pipes it opens with \<^verbatim>\<open>popen\<close>.
\<close>

datatype event =
    Stdout string
  | Stderr string
  | Perror string
  | System string
  | PopenR string
  | PopenW string string

text \<open>
  \<open>Perror p\<close> is the line that \<^verbatim>\<open>perror(p)\<close> writes to the error stream, \<open>System c\<close> the
  call \<^verbatim>\<open>system(c)\<close>, \<open>PopenR c\<close> the call \<^verbatim>\<open>popen(c, "r")\<close>, and \<open>PopenW c t\<close> the
  command \<open>c\<close> opened for writing with the text \<open>t\<close> handed to \<^verbatim>\<open>fputs\<close>.
\<close>

text \<open>
  The answer of the outside world to \<^verbatim>\<open>popen(cmd, "r")\<close>: either \<^verbatim>\<open>popen\<close> fails
  with an \<^verbatim>\<open>errno\<close>, or the command prints lines; then \<^verbatim>\<open>getline\<close> reports the end
  of the stream with \<^verbatim>\<open>errno\<close> as given, and the command ends with the exit status
  given. The source never reads that status (it ignores what \<^verbatim>\<open>pclose\<close> returns).
\<close>

datatype reply = PopenFailed int | Output "string list" int int

text \<open>The same for \<^verbatim>\<open>popen(cmd, "w")\<close> followed by \<^verbatim>\<open>fputs\<close> and \<^verbatim>\<open>pclose\<close>.\<close>

datatype wreply = WPopenFailed int | WFputsFailed int | WDone int

text \<open>
  The outside world. Every answer may depend on all that the process did before.
  \<open>system_ret\<close> is the value that \<^verbatim>\<open>system\<close> returns for a command: the wait status of
  the shell that ran it, which is 0 when the command ended with exit status 0. The
  regular-expression functions of the C library are part of it: \<open>regcomp\<close> is the return
  value of \<^verbatim>\<open>regcomp\<close> for a pattern, and \<open>regexec env pattern subject\<close> is \<open>None\<close>
  when \<^verbatim>\<open>regexec\<close> reports no match and otherwise the offsets
  \<^verbatim>\<open>(matches[1].rm_so, matches[1].rm_eo)\<close> of the first group. So is \<^verbatim>\<open>perror\<close>, which
  writes to the error stream and may change \<^verbatim>\<open>errno\<close> while doing so:
  \<open>perror_errno env h e\<close> is the \<^verbatim>\<open>errno\<close> that a call of \<^verbatim>\<open>perror\<close> leaves when it is
  called with \<^verbatim>\<open>errno = e\<close> after the process did \<open>h\<close>. The source calls
  \<^verbatim>\<open>exit(errno)\<close> right after \<^verbatim>\<open>perror\<close>, so this is the value that \<^verbatim>\<open>exit\<close> gets.
\<close>

record env =
  system_ret :: "event list \<Rightarrow> string \<Rightarrow> int"
  popen_r :: "event list \<Rightarrow> string \<Rightarrow> reply"
  popen_w :: "event list \<Rightarrow> string \<Rightarrow> string \<Rightarrow> wreply"
  random_at :: "nat \<Rightarrow> int"
  regcomp :: "string \<Rightarrow> int"
  regexec :: "string \<Rightarrow> string \<Rightarrow> (nat \<times> nat) option"
  perror_errno :: "event list \<Rightarrow> int \<Rightarrow> int"

text \<open>
  The state of the process: what it did so far, the two globals \<^verbatim>\<open>is_exiting\<close> and
  \<^verbatim>\<open>cleanup_iface\<close>, and whether \<^verbatim>\<open>atexit(cmd_up_cleanup)\<close> was called.
\<close>

record pstate =
  trace :: "event list"
  is_exiting :: bool
  cleanup_iface :: "string option"
  atexit_hook :: bool

text \<open>
  A C function either calls \<^verbatim>\<open>exit\<close>, or never comes back, or returns. \<open>Exit e\<close> carries
  the argument of the call \<^verbatim>\<open>exit(e)\<close>.
\<close>

datatype 'a outcome = Exit int | Diverge | Ret 'a

type_synonym 'a prog = "pstate \<Rightarrow> 'a outcome \<times> pstate"

definition emit :: "event \<Rightarrow> pstate \<Rightarrow> pstate" where
  "emit e st = st\<lparr>trace := trace st @ [e]\<rparr>"

definition retp :: "'a \<Rightarrow> 'a prog" where
  "retp x st = (Ret x, st)"

definition exitp :: "int \<Rightarrow> 'a prog" where
  "exitp e st = (Exit e, st)"

definition bindp :: "'a prog \<Rightarrow> ('a \<Rightarrow> 'b prog) \<Rightarrow> 'b prog" where
  "bindp m f st =
     (case m st of
        (Exit e, st1) \<Rightarrow> (Exit e, st1)
      | (Diverge, st1) \<Rightarrow> (Diverge, st1)
      | (Ret x, st1) \<Rightarrow> f x st1)"

definition E2BIG :: int where
  "E2BIG = 7"

text \<open>\<^verbatim>\<open>perror(msg); exit(errno);\<close> with \<^verbatim>\<open>errno = e\<close> before the two calls.\<close>

definition perror_exit :: "env \<Rightarrow> string \<Rightarrow> int \<Rightarrow> 'a prog" where
  "perror_exit env msg e st = (Exit (perror_errno env (trace st) e), emit (Perror msg) st)"

text \<open>The text between two offsets of a line, as \<^verbatim>\<open>s[eo] = 0; p = &s[so]\<close> leaves it.\<close>

definition substr :: "string \<Rightarrow> nat \<Rightarrow> nat \<Rightarrow> string" where
  "substr s so eo = take (eo - so) (drop so s)"

text \<open>\<^verbatim>\<open>xregcomp\<close>; the message of \<^verbatim>\<open>regerror\<close> that follows on the error line is left out.\<close>

definition xregcomp :: "env \<Rightarrow> string \<Rightarrow> unit prog" where
  "xregcomp env regex st =
     (if regcomp env regex = 0 then (Ret (), st)
      else (Exit 88, emit (Stderr ''Error: Regex compilation error'') st))"

text \<open>
  \<^verbatim>\<open>struct command_buffer\<close> with an open stream: the lines not yet read, and the
  \<^verbatim>\<open>errno\<close> that \<^verbatim>\<open>getline\<close> will leave at the end of the stream.
\<close>

type_synonym command_buffer = "string list \<times> int"

text \<open>\<^verbatim>\<open>vcmd_ret\<close> with a command: lines 121--133.\<close>

definition popen_read :: "env \<Rightarrow> string \<Rightarrow> command_buffer prog" where
  "popen_read env c st =
     (if 8192 \<le> length c then perror_exit env ''Error: vsnprintf'' E2BIG st
      else case popen_r env (trace st) c of
             PopenFailed e \<Rightarrow> perror_exit env ''Error: popen'' e (emit (PopenR c) st)
           | Output ls eof status \<Rightarrow> (Ret (ls, eof), emit (PopenR c) st))"

text \<open>\<^verbatim>\<open>vcmd_ret\<close>, lines 134--141, when \<^verbatim>\<open>getline\<close> finds no further line.\<close>

definition end_of_stream :: "env \<Rightarrow> int \<Rightarrow> unit prog" where
  "end_of_stream env eof st =
     (if eof \<noteq> 0 then perror_exit env ''Error: getline'' eof st else (Ret (), st))"

text \<open>\<^verbatim>\<open>vcmd_ret\<close>, lines 134--141: the next line, or \<open>None\<close> for \<^verbatim>\<open>NULL\<close>.\<close>

definition getline_c ::
  "env \<Rightarrow> command_buffer \<Rightarrow> (string option \<times> command_buffer) prog" where
  "getline_c env c =
     (case fst c of
        [] \<Rightarrow> bindp (end_of_stream env (snd c)) (\<lambda>_. retp (None, c))
      | l # ls \<Rightarrow> retp (Some l, (ls, snd c)))"

text \<open>\<^verbatim>\<open>cmd_ret(&c, fmt, ...)\<close> on a fresh buffer: run the command, read its first line.\<close>

definition cmd_ret :: "env \<Rightarrow> string \<Rightarrow> (string option \<times> command_buffer) prog" where
  "cmd_ret env c = bindp (popen_read env c) (getline_c env)"

definition cmd :: "env \<Rightarrow> string \<Rightarrow> unit prog" where
  "cmd env c st =
     (if 8192 \<le> length c then perror_exit env ''Error: vsnprintf'' E2BIG st
      else let st1 = emit (Stdout (''[#] '' @ c @ [NL])) st;
               r = system_ret env (trace st1) c;
               st2 = emit (System c) st1
           in if r \<noteq> 0 \<and> \<not> is_exiting st2 then (Exit r, st2) else (Ret (), st2))"

definition cndc :: "env \<Rightarrow> string \<Rightarrow> unit prog" where
  "cndc env c st =
     (case cmd_ret env (''ndc '' @ c) (emit (Stdout (''[#] ndc '' @ c @ [NL])) st) of
        (Exit e, st1) \<Rightarrow> (Exit e, st1)
      | (Diverge, st1) \<Rightarrow> (Diverge, st1)
      | (Ret (r, cb), st1) \<Rightarrow>
          (case r of
             None \<Rightarrow> (Exit 29, st1)
           | Some line \<Rightarrow>
               if strstr line ''200 0'' then (Ret (), st1)
               else (Exit 29, emit (Stderr (''Error: '' @ line @ [NL])) st1)))"

definition add_if :: "env \<Rightarrow> string \<Rightarrow> unit prog" where
  "add_if env iface = cmd env (''ip link add '' @ iface @ '' type wireguard'')"

text \<open>
  The loop of \<^verbatim>\<open>del_if\<close> over the lines of \<^verbatim>\<open>ip rule show\<close>: it stops at the first
  line that the pattern matches, and reads on with \<^verbatim>\<open>cmd_ret(&c, NULL)\<close> otherwise.
\<close>

fun rule_loop :: "env \<Rightarrow> string \<Rightarrow> string list \<Rightarrow> int \<Rightarrow> string option prog" where
  "rule_loop env regex [] eof = bindp (end_of_stream env eof) (\<lambda>_. retp None)"
| "rule_loop env regex (r # rest) eof =
     (case regexec env regex r of
        Some (so, eo) \<Rightarrow> retp (Some (substr r so eo))
      | None \<Rightarrow> rule_loop env regex rest eof)"

definition del_if :: "env \<Rightarrow> string \<Rightarrow> unit prog" where
  "del_if env iface =
     (let regex = ''0xc([0-9a-f]+)/0xcffff lookup '' @ iface in
      bindp (xregcomp env regex) (\<lambda>_.
      bindp (cmd env (''ip link del '' @ iface)) (\<lambda>_.
      bindp (popen_read env ''ip rule show'') (\<lambda>(lines, eof).
      bindp (rule_loop env regex lines eof) (\<lambda>netid.
        case netid of
          None \<Rightarrow> retp ()
        | Some n \<Rightarrow> cndc env (''network destroy '' @ dec (strtoul16 n)))))))"

text \<open>
  \<^verbatim>\<open>up_if\<close> returns the network id it leaves in \<^verbatim>\<open>*netid\<close>. \<^verbatim>\<open>srandom\<close> restarts
  the pseudo-random sequence, so the loop reads it from its first value.
\<close>

definition up_if :: "env \<Rightarrow> nat \<Rightarrow> string \<Rightarrow> nat prog" where
  "up_if env netid iface st =
     (case netid_loop (random_at env) 0 netid of
        None \<Rightarrow> (Diverge, st)
      | Some n \<Rightarrow>
          bindp (cmd env (''wg set '' @ iface @ '' fwmark 0x20000'')) (\<lambda>_.
          bindp (cndc env (''interface setcfg '' @ iface @ '' up'')) (\<lambda>_.
          bindp (cndc env (''network create '' @ dec n @ '' vpn 1 1'')) (\<lambda>_.
          bindp (cndc env (''network interface add '' @ dec n @ '' '' @ iface)) (\<lambda>_.
          bindp (cndc env (''network users add '' @ dec n @ '' 0-99999'')) (\<lambda>_.
          retp n))))) st)"

text \<open>
  Lines 272--277 of \<^verbatim>\<open>set_dnses\<close>: \<^verbatim>\<open>snprintf(arg, len + 3, ...)\<close> keeps at most
  \<open>len + 2\<close> characters, \<^verbatim>\<open>strncat(arglist, arg, len * 4 - 1)\<close> appends at most
  \<open>len * 4 - 1\<close> of them.
\<close>

definition dns_delims :: string where
  "dns_delims = [CHR '','', CHR 0x20, TAB, NL]"

definition dns_arg :: "nat \<Rightarrow> string \<Rightarrow> string" where
  "dns_arg len dns = take (len + 2) ([QUOTE] @ dns @ [QUOTE, CHR 0x20])"

fun dns_loop :: "nat \<Rightarrow> string list \<Rightarrow> string \<Rightarrow> string" where
  "dns_loop len [] arglist = arglist"
| "dns_loop len (dns # rest) arglist =
     (if QUOTE \<in> set dns \<or> BACKSLASH \<in> set dns then dns_loop len rest arglist
      else dns_loop len rest (arglist @ take (len * 4 - 1) (dns_arg len dns)))"

definition set_dnses :: "env \<Rightarrow> nat \<Rightarrow> string \<Rightarrow> unit prog" where
  "set_dnses env netid dnses =
     (let len = length dnses in
      if len = 0 then retp ()
      else let arglist = dns_loop len (strtok_all dns_delims dnses) [] in
           if length arglist = 0 then retp ()
           else cndc env (''resolver setnetdns '' @ dec netid @ [CHR 0x20, QUOTE, QUOTE, CHR 0x20]
                          @ arglist))"

definition add_addr :: "env \<Rightarrow> string \<Rightarrow> string \<Rightarrow> unit prog" where
  "add_addr env iface addr =
     (if CHR '':'' \<in> set addr then
        bindp (cndc env (''interface ipv6 '' @ iface @ '' enable'')) (\<lambda>_.
        cmd env (''ip -6 addr add '' @ [QUOTE] @ addr @ [QUOTE] @ '' dev '' @ iface))
      else
        let mutable = takeWhile (\<lambda>c. c \<noteq> CHR ''/'') addr;
            mask = (if CHR ''/'' \<in> set addr
                    then nat (atoi (drop 1 (dropWhile (\<lambda>c. c \<noteq> CHR ''/'') addr)) mod 256)
                    else 32)
        in cndc env (''interface setcfg '' @ iface @ '' '' @ [QUOTE] @ mutable @ [QUOTE]
                     @ '' '' @ dec mask))"

fun addr_loop :: "env \<Rightarrow> string \<Rightarrow> string list \<Rightarrow> unit prog" where
  "addr_loop env iface [] = retp ()"
| "addr_loop env iface (addr # rest) =
     (if QUOTE \<in> set addr \<or> BACKSLASH \<in> set addr then addr_loop env iface rest
      else (\<lambda>st. case add_addr env iface addr st of
                   (Exit e, st1) \<Rightarrow> (Exit e, st1)
                 | (Diverge, st1) \<Rightarrow> (Diverge, st1)
                 | (Ret u, st1) \<Rightarrow> addr_loop env iface rest st1))"

definition set_addr :: "env \<Rightarrow> string \<Rightarrow> string \<Rightarrow> unit prog" where
  "set_addr env iface addrs = addr_loop env iface (strtok_all dns_delims addrs)"

text \<open>
  \<^verbatim>\<open>get_route_mtu\<close> returns a C \<^verbatim>\<open>int\<close>: a 32-bit word, read as signed, \<open>-1\<close> when
  nothing was found.
\<close>

definition get_route_mtu :: "env \<Rightarrow> string \<Rightarrow> 32 word prog" where
  "get_route_mtu env endpoint =
     bindp (xregcomp env ''mtu ([0-9]+)'') (\<lambda>_.
     bindp (xregcomp env ''dev ([^ ]+)'') (\<lambda>_.
     bindp (cmd_ret env (if endpoint \<noteq> ''default'' then ''ip -o route get '' @ endpoint
                         else ''ip -o route show '' @ endpoint)) (\<lambda>(route, c_route).
       case route of
         None \<Rightarrow> retp (- 1)
       | Some route \<Rightarrow>
           (case regexec env ''mtu ([0-9]+)'' route of
              Some (so, eo) \<Rightarrow> retp (word_of_int (atoi (substr route so eo)))
            | None \<Rightarrow>
                (case regexec env ''dev ([^ ]+)'' route of
                   None \<Rightarrow> retp (- 1)
                 | Some (so, eo) \<Rightarrow>
                     bindp (cmd_ret env (''ip -o link show dev '' @ substr route so eo))
                       (\<lambda>(route2, c_dev).
                          case route2 of
                            None \<Rightarrow> retp (- 1)
                          | Some route2 \<Rightarrow>
                              (case regexec env ''mtu ([0-9]+)'' route2 of
                                 None \<Rightarrow> retp (- 1)
                               | Some (so2, eo2) \<Rightarrow>
                                   retp (word_of_int (atoi (substr route2 so2 eo2))))))))))"

text \<open>The pattern \<^verbatim>\<open>^\[?([a-z0-9:.]+)\]?:[0-9]+$\<close> of \<^verbatim>\<open>set_mtu\<close>.\<close>

definition regex_endpoint :: string where
  "regex_endpoint = ''^'' @ [BACKSLASH] @ ''[?([a-z0-9:.]+)'' @ [BACKSLASH] @ '']?:[0-9]+$''"

text \<open>
  What \<^verbatim>\<open>regexec\<close> of a POSIX C library answers for that pattern, compiled with
  \<^verbatim>\<open>REG_EXTENDED\<close> alone as on line 359. Without \<^verbatim>\<open>REG_NEWLINE\<close> the two anchors bind
  to the two ends of the subject, and a newline is a character like any other. So the
  subject is, from its first character to its last, an optional \<^verbatim>\<open>[\<close>, the group (one
  or more of \<^verbatim>\<open>a-z\<close>, \<^verbatim>\<open>0-9\<close>, \<^verbatim>\<open>:\<close> and \<^verbatim>\<open>.\<close>), an optional \<^verbatim>\<open>]\<close>, a colon, and one
  or more digits; the ranges are those of the C locale. The digits are the longest run of
  digits at the end of the subject and neither bracket belongs to the group, so there is
  one way at most to split a subject.
\<close>

definition endpoint_char :: "char \<Rightarrow> bool" where
  "endpoint_char c \<longleftrightarrow> c \<in> set ''abcdefghijklmnopqrstuvwxyz0123456789:.''"

definition ere_endpoint :: "string \<Rightarrow> (nat \<times> nat) option" where
  "ere_endpoint s =
     (let port = rev (takeWhile isdigit (rev s));
          front = take (length s - length port) s in
      if port = [] \<or> front = [] \<or> last front \<noteq> CHR '':'' then None
      else let so = (if take 1 front = ''['' then 1 else 0);
               h1 = drop so (butlast front);
               host = (if h1 \<noteq> [] \<and> last h1 = CHR '']'' then butlast h1 else h1)
           in if host \<noteq> [] \<and> list_all endpoint_char host then Some (so, so + length host)
              else None)"

text \<open>
  The comparison of line 375: \<^verbatim>\<open>next_mtu\<close> is \<^verbatim>\<open>unsigned int\<close>, so both
  comparisons are unsigned, as \<open><\<close> on words is.
\<close>

definition mtu_step :: "32 word \<Rightarrow> 32 word \<Rightarrow> 32 word" where
  "mtu_step endpoint_mtu next_mtu =
     (if 0 < next_mtu \<and> next_mtu < endpoint_mtu then next_mtu else endpoint_mtu)"

fun endpoint_loop :: "env \<Rightarrow> string list \<Rightarrow> int \<Rightarrow> 32 word \<Rightarrow> 32 word prog" where
  "endpoint_loop env [] eof endpoint_mtu =
     bindp (end_of_stream env eof) (\<lambda>_. retp endpoint_mtu)"
| "endpoint_loop env (endpoint # rest) eof endpoint_mtu =
     (case regexec env regex_endpoint endpoint of
        None \<Rightarrow> endpoint_loop env rest eof endpoint_mtu
      | Some (so, eo) \<Rightarrow>
          (\<lambda>st. case get_route_mtu env (substr endpoint so eo) st of
                   (Exit e, st1) \<Rightarrow> (Exit e, st1)
                 | (Diverge, st1) \<Rightarrow> (Diverge, st1)
                 | (Ret next_mtu, st1) \<Rightarrow>
                     endpoint_loop env rest eof (mtu_step endpoint_mtu next_mtu) st1))"

definition set_mtu :: "env \<Rightarrow> string \<Rightarrow> 32 word \<Rightarrow> unit prog" where
  "set_mtu env iface m =
     (if m \<noteq> 0 then cndc env (''interface setmtu '' @ iface @ '' '' @ dec (unat m))
      else
        bindp (xregcomp env regex_endpoint) (\<lambda>_.
        bindp (get_route_mtu env ''default'') (\<lambda>m0.
        bindp (popen_read env (''wg show '' @ iface @ '' endpoints'')) (\<lambda>(lines, eof).
        bindp (endpoint_loop env lines eof (if m0 = - 1 then 1500 else m0)) (\<lambda>endpoint_mtu.
        cndc env (''interface setmtu '' @ iface @ '' '' @ dec_int (sint (endpoint_mtu - 80))))))))"

definition add_route :: "env \<Rightarrow> string \<Rightarrow> nat \<Rightarrow> string \<Rightarrow> unit prog" where
  "add_route env iface netid route =
     cndc env (''network route add '' @ dec netid @ '' '' @ iface @ '' '' @ route)"

fun allowedip_loop :: "env \<Rightarrow> string \<Rightarrow> nat \<Rightarrow> string list \<Rightarrow> unit prog" where
  "allowedip_loop env iface netid [] = retp ()"
| "allowedip_loop env iface netid (allowedip # rest) =
     (\<lambda>st. case add_route env iface netid allowedip st of
              (Exit e, st1) \<Rightarrow> (Exit e, st1)
            | (Diverge, st1) \<Rightarrow> (Diverge, st1)
            | (Ret u, st1) \<Rightarrow> allowedip_loop env iface netid rest st1)"

fun allowedips_loop :: "env \<Rightarrow> string \<Rightarrow> nat \<Rightarrow> string list \<Rightarrow> int \<Rightarrow> unit prog" where
  "allowedips_loop env iface netid [] eof = end_of_stream env eof"
| "allowedips_loop env iface netid (allowedips # rest) eof =
     (if TAB \<notin> set allowedips then allowedips_loop env iface netid rest eof
      else (\<lambda>st. case allowedip_loop env iface netid
                         (strtok_all [CHR 0x20, NL]
                            (drop 1 (dropWhile (\<lambda>c. c \<noteq> TAB) allowedips))) st of
                   (Exit e, st1) \<Rightarrow> (Exit e, st1)
                 | (Diverge, st1) \<Rightarrow> (Diverge, st1)
                 | (Ret u, st1) \<Rightarrow> allowedips_loop env iface netid rest eof st1))"

definition set_routes :: "env \<Rightarrow> string \<Rightarrow> nat \<Rightarrow> unit prog" where
  "set_routes env iface netid =
     bindp (popen_read env (''wg show '' @ iface @ '' allowed-ips'')) (\<lambda>(lines, eof).
     allowedips_loop env iface netid lines eof)"

definition set_config :: "env \<Rightarrow> string \<Rightarrow> string \<Rightarrow> unit prog" where
  "set_config env iface config st =
     (let c = ''wg setconf '' @ iface @ '' /proc/self/fd/0'';
          st1 = emit (Stdout (''[#] '' @ c @ [NL])) st
      in case popen_w env (trace st1) c config of
           WPopenFailed e \<Rightarrow> perror_exit env ''Error: popen'' e st1
         | WFputsFailed e \<Rightarrow> perror_exit env ''Error: fputs'' e (emit (PopenW c config) st1)
         | WDone status \<Rightarrow> (Ret (), emit (PopenW c config) st1))"

text \<open>The exit hook.\<close>

definition cmd_up_cleanup :: "env \<Rightarrow> unit prog" where
  "cmd_up_cleanup env st =
     (let st1 = st\<lparr>is_exiting := True\<rparr> in
      case cleanup_iface st1 of
        None \<Rightarrow> (Ret (), st1)
      | Some iface \<Rightarrow> del_if env iface st1)"

text \<open>Lines 461--467 of \<^verbatim>\<open>cmd_up\<close>: the seven steps, \<^verbatim>\<open>netid\<close> starting at 0.\<close>

definition cmd_up_steps ::
  "env \<Rightarrow> string \<Rightarrow> string \<Rightarrow> 32 word \<Rightarrow> string \<Rightarrow> string \<Rightarrow> unit prog" where
  "cmd_up_steps env iface config m addrs dnses =
     bindp (add_if env iface) (\<lambda>_.
     bindp (set_config env iface config) (\<lambda>_.
     bindp (set_mtu env iface m) (\<lambda>_.
     bindp (set_addr env iface addrs) (\<lambda>_.
     bindp (up_if env 0 iface) (\<lambda>netid.
     bindp (set_dnses env netid dnses) (\<lambda>_.
     set_routes env iface netid))))))"

definition cmd_up ::
  "env \<Rightarrow> string \<Rightarrow> string \<Rightarrow> 32 word \<Rightarrow> string \<Rightarrow> string \<Rightarrow> unit prog" where
  "cmd_up env iface config m addrs dnses =
     bindp (cmd_ret env (''ip link show dev '' @ iface @ '' 2>/dev/null'')) (\<lambda>(r, c).
       case r of
         Some line \<Rightarrow>
           (\<lambda>st. (Exit 92, emit (Stderr (''Error: '' @ iface @ '' already exists'' @ [NL])) st))
       | None \<Rightarrow>
           bindp (\<lambda>st. (Ret (), st\<lparr>cleanup_iface := Some iface, atexit_hook := True\<rparr>)) (\<lambda>_.
           bindp (cmd_up_steps env iface config m addrs dnses) (\<lambda>_.
           (\<lambda>st. (Exit 0, st\<lparr>cleanup_iface := None\<rparr>)))))"

definition cmd_down :: "env \<Rightarrow> string \<Rightarrow> unit prog" where
  "cmd_down env iface =
     bindp (cmd_ret env ''wg show interfaces'') (\<lambda>(ifaces, c).
       let found = (case ifaces of
                      None \<Rightarrow> False
                    | Some line \<Rightarrow> iface \<in> set (strtok_all [CHR 0x20, NL] line))
       in if \<not> found
          then (\<lambda>st. (Exit 43, emit (Stderr (''Error: '' @ iface
                                              @ '' is not a WireGuard interface'' @ [NL])) st))
          else bindp (del_if env iface) (\<lambda>_. exitp 0))"

text \<open>
  The end of the process: \<^verbatim>\<open>exit\<close> runs the hook if \<^verbatim>\<open>atexit\<close> registered it. An
  \<^verbatim>\<open>exit\<close> called inside the hook ends the process with the status of that call.
\<close>

definition process_exit :: "env \<Rightarrow> unit outcome \<times> pstate \<Rightarrow> unit outcome \<times> pstate" where
  "process_exit env r =
     (case r of
        (Exit e, st) \<Rightarrow>
          if atexit_hook st then
            (case cmd_up_cleanup env st of
               (Exit e', st') \<Rightarrow> (Exit e', st')
             | (Diverge, st') \<Rightarrow> (Diverge, st')
             | (Ret u, st') \<Rightarrow> (Exit e, st'))
          else (Exit e, st)
      | (Diverge, st) \<Rightarrow> (Diverge, st)
      | (Ret u, st) \<Rightarrow> (Ret u, st))"

definition run :: "env \<Rightarrow> unit prog \<Rightarrow> pstate \<Rightarrow> unit outcome \<times> pstate" where
  "run env p st = process_exit env (p st)"

definition start :: pstate where
  "start = \<lparr>trace = [], is_exiting = False, cleanup_iface = None, atexit_hook = False\<rparr>"


section \<open>Notions used to state the properties\<close>

text \<open>
  \<open>first_at rnd i k\<close>: from position \<open>i\<close> on, position \<open>k\<close> is the first whose masked value
  reaches 4096.
\<close>

definition first_at :: "(nat \<Rightarrow> int) \<Rightarrow> nat \<Rightarrow> nat \<Rightarrow> bool" where
  "first_at rnd i k \<longleftrightarrow>
     i \<le> k \<and> 4096 \<le> mask_even16 (rnd k) \<and> (\<forall>j\<in>{i..<k}. mask_even16 (rnd j) < 4096)"

subsection \<open>What the configuration loader is to compute\<close>

text \<open>
  The tests of lines 563 and 565 on one line: it is a section marker when its copy
  without white space starts with \<^verbatim>\<open>[\<close>, and an \<^verbatim>\<open>[Interface]\<close> marker when that
  copy is \<^verbatim>\<open>[Interface]\<close> in any mix of upper and lower case.
\<close>

definition section_marker :: "string \<Rightarrow> bool" where
  "section_marker line \<longleftrightarrow> take 1 (clean_of line) = ''[''"

definition interface_marker :: "string \<Rightarrow> bool" where
  "interface_marker line \<longleftrightarrow> strcasecmp_eq (clean_of line) ''[Interface]''"

text \<open>
  The tests of lines 568, 571 and 574 on one line: the setting it carries, with its
  value, if its copy without white space starts with one of the three keys and has
  something after it.
\<close>

datatype setting = Address string | Dns string | Mtu string

definition setting_of :: "string \<Rightarrow> setting option" where
  "setting_of line =
     (let clean = clean_of line in
      if strncasecmp_eq clean ''Address='' 8 \<and> length clean > 8
      then Some (Address (drop 8 clean))
      else if strncasecmp_eq clean ''DNS='' 4 \<and> length clean > 4
      then Some (Dns (drop 4 clean))
      else if strncasecmp_eq clean ''MTU='' 4 \<and> length clean > 4
      then Some (Mtu (drop 4 clean))
      else None)"

text \<open>
  The end of a list of lines lies within an \<^verbatim>\<open>[Interface]\<close> section when the last
  section marker among them is an \<^verbatim>\<open>[Interface]\<close> marker. Line \<open>i\<close> of a file is merged
  when it lies within an \<^verbatim>\<open>[Interface]\<close> section, whichever of the file, and carries a
  setting.
\<close>

definition in_section :: "string list \<Rightarrow> bool" where
  "in_section ls =
     (case rev (filter section_marker ls) of [] \<Rightarrow> False | m # ms \<Rightarrow> interface_marker m)"

definition merged :: "string list \<Rightarrow> nat \<Rightarrow> bool" where
  "merged ls i \<longleftrightarrow> in_section (take (Suc i) ls) \<and> setting_of (ls ! i) \<noteq> None"

definition merged_settings :: "string list \<Rightarrow> setting list" where
  "merged_settings ls =
     map (\<lambda>i. the (setting_of (ls ! i))) (filter (merged ls) [0..<length ls])"

definition body_lines :: "string list \<Rightarrow> string list" where
  "body_lines ls = map (\<lambda>i. ls ! i) (filter (\<lambda>i. \<not> merged ls i) [0..<length ls])"

fun join :: "string \<Rightarrow> string list \<Rightarrow> string" where
  "join d [] = []"
| "join d [x] = x"
| "join d (x # y # ys) = x @ d @ join d (y # ys)"

fun address_values :: "setting list \<Rightarrow> string list" where
  "address_values [] = []"
| "address_values (Address v # xs) = v # address_values xs"
| "address_values (x # xs) = address_values xs"

fun dns_values :: "setting list \<Rightarrow> string list" where
  "dns_values [] = []"
| "dns_values (Dns v # xs) = v # dns_values xs"
| "dns_values (x # xs) = dns_values xs"

fun mtu_values :: "setting list \<Rightarrow> string list" where
  "mtu_values [] = []"
| "mtu_values (Mtu v # xs) = v # mtu_values xs"
| "mtu_values (x # xs) = mtu_values xs"

text \<open>
  The descriptor as specified: the body is every line that is not merged, in file order
  and unchanged; the addresses and the resolvers are the merged values joined by commas;
  the MTU is that of the last merged \<^verbatim>\<open>MTU=\<close> line, 0 without one.
\<close>

definition spec_descriptor :: "string list \<Rightarrow> descriptor" where
  "spec_descriptor ls =
     \<lparr>d_config = concat (body_lines ls),
      d_mtu = (case rev (mtu_values (merged_settings ls)) of
                 [] \<Rightarrow> 0
               | v # vs \<Rightarrow> word_of_int (atoi v)),
      d_addrs = join '','' (address_values (merged_settings ls)),
      d_dnses = join '','' (dns_values (merged_settings ls))\<rparr>"

text \<open>The text of a field that may still be \<^verbatim>\<open>NULL\<close>.\<close>

definition str_of :: "string option \<Rightarrow> string" where
  "str_of p = (case p of None \<Rightarrow> [] | Some s \<Rightarrow> s)"

definition joined :: "string list \<Rightarrow> string option" where
  "joined vs = (if vs = [] then None else Some (join '','' vs))"

definition no_space_fields :: "options \<Rightarrow> bool" where
  "no_space_fields opts \<longleftrightarrow>
     (\<forall>c\<in>set (str_of (opt_addrs opts)). \<not> isspace c) \<and>
     (\<forall>c\<in>set (str_of (opt_dnses opts)). \<not> isspace c)"

subsection \<open>Frames of the process functions\<close>

text \<open>
  \<open>extends st st'\<close>: from \<open>st\<close> to \<open>st'\<close> the process only did more to the outside world; its
  globals and the registration of the exit hook are as before. A function is framed when
  that is all it ever does.
\<close>

definition extends :: "pstate \<Rightarrow> pstate \<Rightarrow> bool" where
  "extends st st' \<longleftrightarrow>
     is_exiting st' = is_exiting st \<and> cleanup_iface st' = cleanup_iface st \<and>
     atexit_hook st' = atexit_hook st \<and> prefix (trace st) (trace st')"

definition frame :: "'a prog \<Rightarrow> bool" where
  "frame p \<longleftrightarrow> (\<forall>st. extends st (snd (p st)))"

subsection \<open>Commands and values named in the properties\<close>

text \<open>The existence probe of \<^verbatim>\<open>cmd_up\<close>, line 453.\<close>

definition probe :: "string \<Rightarrow> string" where
  "probe iface = ''ip link show dev '' @ iface @ '' 2>/dev/null''"

text \<open>
  The resolver entries that are kept: the tokens of the list without a quote and without
  a backslash. The command for them: each entry in quotes, joined by single spaces, with
  one more space at the end unless the list is one bare entry.
\<close>

definition quoted :: "string \<Rightarrow> string" where
  "quoted t = [QUOTE] @ t @ [QUOTE]"

definition dns_kept :: "string \<Rightarrow> string list" where
  "dns_kept dnses =
     filter (\<lambda>t. QUOTE \<notin> set t \<and> BACKSLASH \<notin> set t) (strtok_all dns_delims dnses)"

definition dns_command :: "nat \<Rightarrow> string \<Rightarrow> string" where
  "dns_command netid dnses =
     ''resolver setnetdns '' @ dec netid @ [CHR 0x20, QUOTE, QUOTE, CHR 0x20]
     @ join '' '' (map quoted (dns_kept dnses))
     @ (if dns_kept dnses = [dnses] then [] else '' '')"

text \<open>
  The peer samples of \<^verbatim>\<open>set_mtu\<close>: what \<^verbatim>\<open>get_route_mtu\<close> returns for the endpoint of
  each line that the endpoint pattern matches, in the order of the lines, each call
  starting in the state the previous one left.
\<close>

fun peer_samples :: "env \<Rightarrow> string list \<Rightarrow> pstate \<Rightarrow> 32 word list" where
  "peer_samples env [] st = []"
| "peer_samples env (endpoint # rest) st =
     (case regexec env regex_endpoint endpoint of
        None \<Rightarrow> peer_samples env rest st
      | Some (so, eo) \<Rightarrow>
          (case get_route_mtu env (substr endpoint so eo) st of
             (Exit e, st1) \<Rightarrow> []
           | (Diverge, st1) \<Rightarrow> []
           | (Ret next_mtu, st1) \<Rightarrow> next_mtu # peer_samples env rest st1))"

text \<open>The minimum of the default-route value and the peer samples that are positive.\<close>

definition min_mtu :: "int \<Rightarrow> 32 word list \<Rightarrow> int" where
  "min_mtu m0 samples = Min (set (m0 # map sint (filter (\<lambda>x. 0 < sint x) samples)))"

subsection \<open>Hosts to run the program on\<close>

text \<open>
  What \<^verbatim>\<open>regexec\<close> of the C library answers for the patterns of the program: for the
  endpoint pattern on every subject, for the other patterns on the lines that the hosts
  below print. The offsets are those of the first group, \<open>None\<close> is no match.
\<close>

definition libc_regexec :: "string \<Rightarrow> string \<Rightarrow> (nat \<times> nat) option" where
  "libc_regexec pattern subject =
     (if pattern = ''mtu ([0-9]+)''
         \<and> subject = ''2: eth0: <UP> mtu 1500 qdisc noqueue'' @ [NL] then Some (18, 22)
      else if pattern = ''mtu ([0-9]+)''
         \<and> subject = ''192.0.2.7 via 10.0.2.2 dev eth0 mtu 1400'' @ [NL] then Some (36, 40)
      else if pattern = ''dev ([^ ]+)''
         \<and> subject = ''default via 10.0.2.2 dev eth0 proto static'' @ [NL] then Some (25, 29)
      else if pattern = regex_endpoint then ere_endpoint subject
      else if pattern = ''0xc([0-9a-f]+)/0xcffff lookup wg0''
         \<and> subject = ''13000:'' @ [TAB] @ ''from all fwmark 0xc1170/0xcffff lookup wg0'' @ [NL]
      then Some (26, 30)
      else None)"

text \<open>
  A host without the interface \<^verbatim>\<open>wg0\<close>: every command succeeds, the policy daemon
  accepts every request, the probe for \<^verbatim>\<open>wg0\<close> prints nothing and ends with status 1.
  The configuration has two peers, and \<^verbatim>\<open>wg show\<close> prints a line for each: the public
  key, a tab, the value, a newline. The first peer has no endpoint; the second is at
  \<^verbatim>\<open>192.0.2.7:51820\<close>, behind a route with MTU 1400, while the default route goes
  over \<^verbatim>\<open>eth0\<close> with MTU 1500. \<^verbatim>\<open>perror\<close> leaves \<^verbatim>\<open>errno\<close> as it finds it.
\<close>

definition peer_a :: string where
  "peer_a = ''xTIBA5rboUvnH4htodjb6e697QjLERt1NAB4mZqp8Dg=''"

definition peer_b :: string where
  "peer_b = ''TrMvSoP4jYQlY6RIzBgbssQqY3vxI2Pi+y71lOWWXX0=''"

definition host_pipes :: "string \<Rightarrow> reply" where
  "host_pipes c =
     (if take 4 c = ''ndc '' then Output [''200 0 success'' @ [NL]] 0 0
      else if c = ''ip -o route show default''
      then Output [''default via 10.0.2.2 dev eth0 proto static'' @ [NL]] 0 0
      else if c = ''ip -o link show dev eth0''
      then Output [''2: eth0: <UP> mtu 1500 qdisc noqueue'' @ [NL]] 0 0
      else if c = ''ip -o route get 192.0.2.7''
      then Output [''192.0.2.7 via 10.0.2.2 dev eth0 mtu 1400'' @ [NL]] 0 0
      else if c = ''wg show wg0 endpoints''
      then Output [peer_a @ [TAB] @ ''(none)'' @ [NL],
                   peer_b @ [TAB] @ ''192.0.2.7:51820'' @ [NL]] 0 0
      else if c = ''wg show wg0 allowed-ips''
      then Output [peer_a @ [TAB] @ ''10.0.0.0/24 fd00::/64'' @ [NL],
                   peer_b @ [TAB] @ ''10.0.1.0/24'' @ [NL]] 0 0
      else if c = ''ip rule show''
      then Output [''0:'' @ [TAB] @ ''from all lookup local'' @ [NL]] 0 0
      else Output [] 0 1)"

definition host_down :: env where
  "host_down =
     \<lparr>system_ret = (\<lambda>h c. 0),
      popen_r = (\<lambda>h c. host_pipes c),
      popen_w = (\<lambda>h c text. WDone 0),
      random_at = (\<lambda>i. if i = 0 then 17 else 70001),
      regcomp = (\<lambda>pattern. 0),
      regexec = libc_regexec,
      perror_errno = (\<lambda>h e. e)\<rparr>"

text \<open>The same host with \<^verbatim>\<open>wg0\<close> up and bound to the network 0x1170.\<close>

definition host_up :: env where
  "host_up = host_down
     \<lparr>popen_r := (\<lambda>h c.
        if c = ''ip link show dev wg0 2>/dev/null''
        then Output [''7: wg0: <POINTOPOINT,NOARP,UP> mtu 1320'' @ [NL]] 0 0
        else if c = ''wg show interfaces'' then Output [''wg0 wg1'' @ [NL]] 0 0
        else if c = ''ip rule show''
        then Output [''0:'' @ [TAB] @ ''from all lookup local'' @ [NL],
                     ''13000:'' @ [TAB] @ ''from all fwmark 0xc1170/0xcffff lookup wg0'' @ [NL]]
                    0 0
        else host_pipes c)\<rparr>"

text \<open>The host without \<^verbatim>\<open>wg0\<close> on which \<^verbatim>\<open>ip link add\<close> fails.\<close>

definition host_add_fails :: env where
  "host_add_fails = host_down
     \<lparr>system_ret := (\<lambda>h c. if c = ''ip link add wg0 type wireguard'' then 512 else 0)\<rparr>"

text \<open>The host without \<^verbatim>\<open>wg0\<close> on which the policy daemon refuses to set an MTU.\<close>

definition host_mtu_refused :: env where
  "host_mtu_refused = host_down
     \<lparr>popen_r := (\<lambda>h c. if take 21 c = ''ndc interface setmtu ''
                          then Output [''400 0 refused'' @ [NL]] 0 0
                          else host_pipes c)\<rparr>"


section \<open>Running the model on a host\<close>

text \<open>The equations that evaluate a run of the program on one of the hosts.\<close>

lemmas model_defs =
  run_def process_exit_def cmd_up_def cmd_up_steps_def cmd_down_def cmd_up_cleanup_def
  add_if_def del_if_def up_if_def set_dnses_def add_addr_def set_addr_def get_route_mtu_def
  set_mtu_def add_route_def set_routes_def set_config_def cndc_def cmd_def cmd_ret_def
  popen_read_def getline_c_def end_of_stream_def xregcomp_def bindp_def retp_def exitp_def
  emit_def start_def substr_def E2BIG_def perror_exit_def Let_def probe_def
  strtok_all_def dns_delims_def dns_arg_def atoi_def isspace_def isdigit_def strtoul16_def
  hex_digit_def dec.simps dec_int_def mtu_step_def ere_endpoint_def
  endpoint_char_def

lemmas host_defs =
  host_down_def host_up_def host_add_fails_def host_mtu_refused_def
  host_pipes_def libc_regexec_def regex_endpoint_def peer_a_def peer_b_def

lemma host_down_netid: "netid_loop (random_at host_down) 0 0 = Some 4464"
  by (simp add: netid_loop.simps host_down_def mask_even16_def)

lemma pair_collapse: "fst p = a \<Longrightarrow> p = (a, snd p)"
  by (cases p) simp

section \<open>The network id allocator\<close>

lemma mask_even16_le: "mask_even16 r \<le> 65534"
proof -
  have "r AND 0xfffe \<le> 0xfffe" by (rule AND_upper2) simp
  then show ?thesis unfolding mask_even16_def by linarith
qed

lemma mask_even16_even: "even (mask_even16 r)"
proof -
  have "0 \<le> r AND 0xfffe" by simp
  moreover have "even (r AND 0xfffe)" by (simp add: even_and_iff)
  ultimately show ?thesis unfolding mask_even16_def by (simp add: even_nat_iff)
qed

lemma first_at_Suc:
  assumes "first_at rnd (Suc i) k" "mask_even16 (rnd i) < 4096"
  shows "first_at rnd i k"
  unfolding first_at_def
proof (intro conjI ballI)
  show "i \<le> k" using assms(1) by (simp add: first_at_def)
  show "4096 \<le> mask_even16 (rnd k)" using assms(1) by (simp add: first_at_def)
  fix j assume "j \<in> {i..<k}"
  then show "mask_even16 (rnd j) < 4096"
    using assms by (cases "j = i") (auto simp: first_at_def)
qed

lemma netid_loop_sound:
  assumes returns: "netid_loop rnd i netid = Some r"
  shows "if netid < 4096 then \<exists>k. first_at rnd i k \<and> r = mask_even16 (rnd k) else r = netid"
proof (rule netid_loop.raw_induct
    [where P = "\<lambda>rnd i netid r. if netid < 4096
                  then \<exists>k. first_at rnd i k \<and> r = mask_even16 (rnd k) else r = netid",
     OF _ returns], goal_cases)
  case (1 f rnd i netid r)
  note ih = 1(1) and body = 1(2)
  show ?case
  proof (cases "netid < 4096")
    case False
    with body show ?thesis by simp
  next
    case True
    with body have call: "f rnd (Suc i) (mask_even16 (rnd i)) = Some r" by simp
    show ?thesis
    proof (cases "mask_even16 (rnd i) < 4096")
      case False
      with ih[OF call] have "r = mask_even16 (rnd i)" by simp
      with False True show ?thesis by (auto simp: first_at_def intro!: exI[of _ i])
    next
      case small: True
      with ih[OF call] obtain k where k: "first_at rnd (Suc i) k" "r = mask_even16 (rnd k)"
        by auto
      from first_at_Suc[OF k(1) small] k(2) True show ?thesis by auto
    qed
  qed
qed

lemma netid_loop_first:
  assumes "netid < 4096" "first_at rnd i k"
  shows "netid_loop rnd i netid = Some (mask_even16 (rnd k))"
  using assms
proof (induction "k - i" arbitrary: i netid)
  case 0
  then have "i = k" by (simp add: first_at_def)
  with 0 show ?case
    by (simp add: first_at_def netid_loop.simps[of rnd k] netid_loop.simps[of rnd "Suc k"])
next
  case (Suc d)
  then have lt: "i < k" by simp
  with Suc.prems have small: "mask_even16 (rnd i) < 4096" by (simp add: first_at_def)
  have "first_at rnd (Suc i) k" using Suc.prems(2) lt by (auto simp: first_at_def)
  then have "netid_loop rnd (Suc i) (mask_even16 (rnd i)) = Some (mask_even16 (rnd k))"
    using Suc.hyps(2) small by (intro Suc.hyps(1)) auto
  with Suc.prems(1) show ?case by (subst netid_loop.simps) simp
qed

lemma first_at_ex:
  "(\<exists>k. first_at rnd i k) \<longleftrightarrow> (\<exists>n\<ge>i. 4096 \<le> mask_even16 (rnd n))"
proof
  assume "\<exists>k. first_at rnd i k"
  then show "\<exists>n\<ge>i. 4096 \<le> mask_even16 (rnd n)"
    by (auto simp: first_at_def)
next
  assume "\<exists>n\<ge>i. 4096 \<le> mask_even16 (rnd n)"
  then obtain n where n: "i \<le> n \<and> 4096 \<le> mask_even16 (rnd n)" by blast
  define k where "k = (LEAST n. i \<le> n \<and> 4096 \<le> mask_even16 (rnd n))"
  have 1: "i \<le> k \<and> 4096 \<le> mask_even16 (rnd k)" unfolding k_def using n by (rule LeastI)
  have 2: "\<And>j. i \<le> j \<and> j < k \<Longrightarrow> mask_even16 (rnd j) < 4096"
    unfolding k_def using not_less_Least by fastforce
  from 1 2 show "\<exists>k. first_at rnd i k" unfolding first_at_def by auto
qed

text \<open>
  C6. Whatever values the pseudo-random source yields, a network id that the loop of
  \<^verbatim>\<open>up_if\<close> returns when it starts from 0, as \<^verbatim>\<open>cmd_up\<close> starts it, lies between 4096
  and 65534 and is even; and this is the id that \<^verbatim>\<open>up_if\<close> hands back to its caller.
\<close>

theorem allocator_range:
  "(netid_loop rnd 0 0 = Some n \<longrightarrow> 4096 \<le> n \<and> n \<le> 65534 \<and> n mod 2 = 0) \<and>
   (up_if env 0 iface st = (Ret n, st') \<longrightarrow> 4096 \<le> n \<and> n \<le> 65534 \<and> n mod 2 = 0)"
proof -
  have loop: "4096 \<le> m \<and> m \<le> 65534 \<and> m mod 2 = 0" if "netid_loop r 0 0 = Some m" for r m
  proof -
    from netid_loop_sound[OF that] obtain k where "first_at r 0 k" "m = mask_even16 (r k)"
      by auto
    then show ?thesis
      using mask_even16_le[of "r k"] mask_even16_even[of "r k"]
      by (auto simp: first_at_def)
  qed
  have "netid_loop (random_at env) 0 0 = Some n" if "up_if env 0 iface st = (Ret n, st')"
    using that
    by (auto simp: up_if_def bindp_def retp_def
             split: option.splits prod.splits outcome.splits)
  with loop show ?thesis by blast
qed

theorem allocator_range_witness:
  "netid_loop (\<lambda>i. if i = 0 then 17 else 70001) 0 0 = Some 4464 \<and>
   fst (up_if host_down 0 ''wg0'' start) = Ret 4464 \<and>
   4096 \<le> (4464::nat) \<and> (4464::nat) \<le> 65534 \<and> (4464::nat) mod 2 = 0"
proof -
  have a: "netid_loop (\<lambda>i::nat. if i = 0 then 17 else 70001) 0 0 = Some 4464"
    by (simp add: netid_loop.simps mask_even16_def)
  have f: "fst (up_if host_down 0 ''wg0'' start) = Ret 4464"
    using host_down_netid by (simp add: model_defs host_defs)
  then have b: "up_if host_down 0 ''wg0'' start = (Ret 4464, snd (up_if host_down 0 ''wg0'' start))"
    by (rule pair_collapse)
  from allocator_range[of "\<lambda>i. if i = 0 then 17 else 70001" 4464 host_down "''wg0''" start
                          "snd (up_if host_down 0 ''wg0'' start)"] a b f
  show ?thesis by simp
qed

text \<open>
  C10. The loop, started from 0, ends if and only if some value of the pseudo-random
  source, masked, is at least 4096; and then the id it returns is the first such masked
  value of the sequence.
\<close>

theorem allocator_terminates_iff:
  "((\<exists>n. netid_loop rnd 0 0 = Some n) \<longleftrightarrow> (\<exists>k. 4096 \<le> mask_even16 (rnd k))) \<and>
   (4096 \<le> mask_even16 (rnd k) \<and> (\<forall>j\<in>{0..<k}. mask_even16 (rnd j) < 4096)
      \<longrightarrow> netid_loop rnd 0 0 = Some (mask_even16 (rnd k)))"
proof (intro conjI impI iffI)
  assume "\<exists>n. netid_loop rnd 0 0 = Some n"
  then obtain n where "netid_loop rnd 0 0 = Some n" ..
  from netid_loop_sound[OF this] show "\<exists>k. 4096 \<le> mask_even16 (rnd k)"
    by (auto simp: first_at_def)
next
  assume "\<exists>k. 4096 \<le> mask_even16 (rnd k)"
  then have "\<exists>n\<ge>0. 4096 \<le> mask_even16 (rnd n)" by simp
  then obtain k where "first_at rnd 0 k" using first_at_ex[of rnd 0] by blast
  then show "\<exists>n. netid_loop rnd 0 0 = Some n"
    using netid_loop_first[of 0 rnd 0 k] by simp
next
  assume "4096 \<le> mask_even16 (rnd k) \<and> (\<forall>j\<in>{0..<k}. mask_even16 (rnd j) < 4096)"
  then have "first_at rnd 0 k" by (simp add: first_at_def)
  then show "netid_loop rnd 0 0 = Some (mask_even16 (rnd k))"
    using netid_loop_first[of 0 rnd 0 k] by simp
qed

theorem allocator_terminates_iff_witness:
  "4096 \<le> mask_even16 ((\<lambda>i::nat. if i < 2 then 17 else 70001) 2) \<and>
   mask_even16 ((\<lambda>i::nat. if i < 2 then 17 else 70001) 0) < 4096 \<and>
   mask_even16 ((\<lambda>i::nat. if i < 2 then 17 else 70001) 1) < 4096 \<and>
   netid_loop (\<lambda>i::nat. if i < 2 then 17 else 70001) 0 0 = Some 4464"
proof -
  have h: "4096 \<le> mask_even16 ((\<lambda>i::nat. if i < 2 then 17 else 70001) 2) \<and>
           (\<forall>j\<in>{0..<2}. mask_even16 ((\<lambda>i::nat. if i < 2 then 17 else 70001) j) < 4096)"
    by (simp add: mask_even16_def)
  have v: "mask_even16 ((\<lambda>i::nat. if i < 2 then 17 else 70001) 2) = 4464"
    by (simp add: mask_even16_def)
  from allocator_terminates_iff[of "\<lambda>i. if i < 2 then 17 else 70001" 2] h
  have "netid_loop (\<lambda>i::nat. if i < 2 then 17 else 70001) 0 0
          = Some (mask_even16 ((\<lambda>i::nat. if i < 2 then 17 else 70001) 2))"
    by blast
  then show ?thesis unfolding v by (simp add: mask_even16_def)
qed

section \<open>The configuration loader\<close>

lemma tolower_lit: "map tolower ''[Interface]'' = ''[interface]''"
  by (simp add: tolower_def)

lemma tolower_bracket: "tolower x = CHR ''['' \<Longrightarrow> x = CHR ''[''"
  by (simp add: tolower_def split: if_splits)

lemma interface_is_section: "interface_marker l \<Longrightarrow> section_marker l"
proof -
  assume "interface_marker l"
  then have a: "map tolower (clean_of l) = ''[interface]''"
    unfolding interface_marker_def strcasecmp_eq_def tolower_lit .
  then obtain x xs where c: "clean_of l = x # xs" by (cases "clean_of l") auto
  with a have "tolower x = CHR ''[''" by simp
  then have "x = CHR ''[''" by (rule tolower_bracket)
  with c show ?thesis by (simp add: section_marker_def)
qed

lemma in_section_snoc:
  "in_section (ls @ [l]) = (if interface_marker l then True else if section_marker l then False else in_section ls)"
  using interface_is_section[of l] by (auto simp: in_section_def)

lemma parse_loop_snoc: "parse_loop (ls @ [l]) = parse_line l (parse_loop ls)"
  by (simp add: parse_loop_def)

lemma fst_parse_line:
  "fst (parse_line l s) = (if interface_marker l then True else if section_marker l then False else fst s)"
  by (simp add: parse_line_def Let_def interface_marker_def section_marker_def)

lemma fst_parse_loop: "fst (parse_loop ls) = in_section ls"
proof (induction ls rule: rev_induct)
  case Nil
  show ?case by (simp add: parse_loop_def in_section_def)
next
  case (snoc l ls)
  then show ?case by (simp add: parse_loop_snoc fst_parse_line in_section_snoc)
qed

lemma snd_parse_line:
  "snd (parse_line l s) =
     (if fst (parse_line l s) then
        (case setting_of l of
           Some (Address v) \<Rightarrow> (snd s)\<lparr>opt_addrs := Some (concat_and_free (opt_addrs (snd s)) '','' v)\<rparr>
         | Some (Dns v) \<Rightarrow> (snd s)\<lparr>opt_dnses := Some (concat_and_free (opt_dnses (snd s)) '','' v)\<rparr>
         | Some (Mtu v) \<Rightarrow> (snd s)\<lparr>opt_mtu := word_of_int (atoi v)\<rparr>
         | None \<Rightarrow> (snd s)\<lparr>opt_config := Some (concat_and_free (opt_config (snd s)) [] l)\<rparr>)
      else (snd s)\<lparr>opt_config := Some (concat_and_free (opt_config (snd s)) [] l)\<rparr>)"
  by (simp add: parse_line_def Let_def setting_of_def)

lemma join_snoc: "join d (xs @ [x]) = (if xs = [] then x else join d xs @ d @ x)"
  by (induction d xs rule: join.induct) auto

lemma merged_snoc_old: "i < length ls \<Longrightarrow> merged (ls @ [l]) i = merged ls i"
  by (simp add: merged_def nth_append)

lemma merged_snoc_new:
  "merged (ls @ [l]) (length ls) \<longleftrightarrow> in_section (ls @ [l]) \<and> setting_of l \<noteq> None"
  by (simp add: merged_def)

lemma body_lines_snoc:
  "body_lines (ls @ [l]) = body_lines ls @ (if merged (ls @ [l]) (length ls) then [] else [l])"
proof -
  have 1: "filter (\<lambda>i. \<not> merged (ls @ [l]) i) [0..<length ls] = filter (\<lambda>i. \<not> merged ls i) [0..<length ls]"
    by (rule filter_cong) (auto simp: merged_snoc_old)
  have 2: "map (\<lambda>i. (ls @ [l]) ! i) (filter (\<lambda>i. \<not> merged ls i) [0..<length ls])
           = map (\<lambda>i. ls ! i) (filter (\<lambda>i. \<not> merged ls i) [0..<length ls])"
    by (rule map_cong) (auto simp: nth_append)
  show ?thesis by (simp add: body_lines_def 1 2)
qed

lemma merged_settings_snoc:
  "merged_settings (ls @ [l]) =
     merged_settings ls @ (if merged (ls @ [l]) (length ls) then [the (setting_of l)] else [])"
proof -
  have 1: "filter (merged (ls @ [l])) [0..<length ls] = filter (merged ls) [0..<length ls]"
    by (rule filter_cong) (auto simp: merged_snoc_old)
  have 2: "map (\<lambda>i. the (setting_of ((ls @ [l]) ! i))) (filter (merged ls) [0..<length ls])
           = map (\<lambda>i. the (setting_of (ls ! i))) (filter (merged ls) [0..<length ls])"
    by (rule map_cong) (auto simp: nth_append)
  show ?thesis by (simp add: merged_settings_def 1 2)
qed

lemma address_values_append: "address_values (xs @ ys) = address_values xs @ address_values ys"
  by (induction xs rule: address_values.induct) auto

lemma dns_values_append: "dns_values (xs @ ys) = dns_values xs @ dns_values ys"
  by (induction xs rule: dns_values.induct) auto

lemma mtu_values_append: "mtu_values (xs @ ys) = mtu_values xs @ mtu_values ys"
  by (induction xs rule: mtu_values.induct) auto

lemma joined_snoc: "Some (concat_and_free (joined vs) '','' v) = joined (vs @ [v])"
  by (simp add: joined_def concat_and_free_def join_snoc)

lemma str_of_append: "str_of (Some (concat_and_free p [] l)) = str_of p @ l"
  by (cases p) (simp_all add: str_of_def concat_and_free_def)

lemma parse_loop_spec:
  "str_of (opt_config (snd (parse_loop ls))) = concat (body_lines ls) \<and>
   opt_addrs (snd (parse_loop ls)) = joined (address_values (merged_settings ls)) \<and>
   opt_dnses (snd (parse_loop ls)) = joined (dns_values (merged_settings ls)) \<and>
   opt_mtu (snd (parse_loop ls)) =
     (case rev (mtu_values (merged_settings ls)) of [] \<Rightarrow> 0 | v # vs \<Rightarrow> word_of_int (atoi v))"
proof (induction ls rule: rev_induct)
  case Nil
  show ?case
    by (simp add: parse_loop_def options_init_def str_of_def body_lines_def
                  merged_settings_def joined_def)
next
  case (snoc l ls)
  let ?s = "parse_loop ls"
  have flag: "fst (parse_line l ?s) = in_section (ls @ [l])"
    using fst_parse_loop[of "ls @ [l]"] by (simp add: parse_loop_snoc)
  show ?case
  proof (cases "merged (ls @ [l]) (length ls)")
    case False
    then have "snd (parse_line l ?s)
                = (snd ?s)\<lparr>opt_config := Some (concat_and_free (opt_config (snd ?s)) [] l)\<rparr>"
      using flag by (subst snd_parse_line) (auto simp: merged_snoc_new split: option.splits)
    with False snoc show ?thesis
      by (simp add: parse_loop_snoc body_lines_snoc merged_settings_snoc str_of_append)
  next
    case True
    then have sec: "fst (parse_line l ?s)" and set: "setting_of l \<noteq> None"
      using flag by (auto simp: merged_snoc_new)
    from set obtain x where x: "setting_of l = Some x" by auto
    show ?thesis
    proof (cases x)
      case (Address v)
      with x sec have "snd (parse_line l ?s)
          = (snd ?s)\<lparr>opt_addrs := Some (concat_and_free (opt_addrs (snd ?s)) '','' v)\<rparr>"
        by (subst snd_parse_line) simp
      with True snoc x Address show ?thesis
        by (simp add: parse_loop_snoc body_lines_snoc merged_settings_snoc joined_snoc
                      address_values_append dns_values_append mtu_values_append)
    next
      case (Dns v)
      with x sec have "snd (parse_line l ?s)
          = (snd ?s)\<lparr>opt_dnses := Some (concat_and_free (opt_dnses (snd ?s)) '','' v)\<rparr>"
        by (subst snd_parse_line) simp
      with True snoc x Dns show ?thesis
        by (simp add: parse_loop_snoc body_lines_snoc merged_settings_snoc joined_snoc
                      address_values_append dns_values_append mtu_values_append)
    next
      case (Mtu v)
      with x sec have "snd (parse_line l ?s) = (snd ?s)\<lparr>opt_mtu := word_of_int (atoi v)\<rparr>"
        by (subst snd_parse_line) simp
      with True snoc x Mtu show ?thesis
        by (simp add: parse_loop_snoc body_lines_snoc merged_settings_snoc joined_snoc
                      address_values_append dns_values_append mtu_values_append)
    qed
  qed
qed


lemma no_space_clean: "c \<in> set (clean_of l) \<Longrightarrow> \<not> isspace c"
  by (simp add: clean_of_def)

lemma setting_of_no_space:
  assumes "setting_of l = Some x" "x = Address v \<or> x = Dns v \<or> x = Mtu v" "c \<in> set v"
  shows "\<not> isspace c"
proof -
  from assms(1,2) have "v = drop 8 (clean_of l) \<or> v = drop 4 (clean_of l)"
    by (auto simp: setting_of_def Let_def split: if_splits)
  with assms(3) have "c \<in> set (clean_of l)" by (auto dest: in_set_dropD)
  then show ?thesis by (rule no_space_clean)
qed

lemma comma_no_space: "\<not> isspace (CHR '','')"
  by (simp add: isspace_def)

lemma no_space_concat_and_free:
  assumes "\<forall>c\<in>set (str_of p). \<not> isspace c" "\<forall>c\<in>set v. \<not> isspace c"
  shows "\<forall>c\<in>set (str_of (Some (concat_and_free p '','' v))). \<not> isspace c"
  using assms comma_no_space by (cases p) (auto simp: str_of_def concat_and_free_def)

lemma no_space_parse_line:
  assumes "no_space_fields (snd s)"
  shows "no_space_fields (snd (parse_line l s))"
proof (cases "fst (parse_line l s)")
  case False
  with assms show ?thesis by (subst snd_parse_line) (simp add: no_space_fields_def)
next
  case True
  show ?thesis
  proof (cases "setting_of l")
    case None
    with True assms show ?thesis by (subst snd_parse_line) (simp add: no_space_fields_def)
  next
    case (Some x)
    show ?thesis
    proof (cases x)
      case (Address v)
      have "\<forall>c\<in>set v. \<not> isspace c" using setting_of_no_space[OF Some] Address by blast
      with assms have "\<forall>c\<in>set (str_of (Some (concat_and_free (opt_addrs (snd s)) '','' v))). \<not> isspace c"
        by (intro no_space_concat_and_free) (simp_all add: no_space_fields_def)
      with True Some Address assms show ?thesis
        by (subst snd_parse_line) (simp add: no_space_fields_def)
    next
      case (Dns v)
      have "\<forall>c\<in>set v. \<not> isspace c" using setting_of_no_space[OF Some] Dns by blast
      with assms have "\<forall>c\<in>set (str_of (Some (concat_and_free (opt_dnses (snd s)) '','' v))). \<not> isspace c"
        by (intro no_space_concat_and_free) (simp_all add: no_space_fields_def)
      with True Some Dns assms show ?thesis
        by (subst snd_parse_line) (simp add: no_space_fields_def)
    next
      case (Mtu v)
      with True Some assms show ?thesis
        by (subst snd_parse_line) (simp add: no_space_fields_def)
    qed
  qed
qed

lemma no_space_parse_loop: "no_space_fields (snd (parse_loop ls))"
proof (induction ls rule: rev_induct)
  case Nil
  show ?case by (simp add: parse_loop_def options_init_def no_space_fields_def str_of_def)
next
  case (snoc l ls)
  then show ?case by (simp add: parse_loop_snoc no_space_parse_line)
qed

lemma strncasecmp_keys:
  "strncasecmp_eq c ''Address='' 8 \<longleftrightarrow> map tolower (take 8 c) = ''address=''"
  "strncasecmp_eq c ''DNS='' 4 \<longleftrightarrow> map tolower (take 4 c) = ''dns=''"
  "strncasecmp_eq c ''MTU='' 4 \<longleftrightarrow> map tolower (take 4 c) = ''mtu=''"
  by (simp_all add: strncasecmp_eq_def tolower_def)

lemma recognise_key:
  assumes clean: "clean_of line = k @ v" and v: "v \<noteq> []" and sec: "fst s"
    and key: "map tolower k \<in> set [''address='', ''dns='', ''mtu='']"
  shows "parse_line line s =
           (True,
            if map tolower k = ''address=''
            then (snd s)\<lparr>opt_addrs := Some (concat_and_free (opt_addrs (snd s)) '','' v)\<rparr>
            else if map tolower k = ''dns=''
            then (snd s)\<lparr>opt_dnses := Some (concat_and_free (opt_dnses (snd s)) '','' v)\<rparr>
            else (snd s)\<lparr>opt_mtu := word_of_int (atoi v)\<rparr>)"
proof -
  from key obtain k0 k' where k: "k = k0 # k'" by (cases k) auto
  from key k have k0: "tolower k0 \<noteq> CHR ''[''" by auto
  then have "k0 \<noteq> CHR ''[''" by (auto simp: tolower_def)
  with clean k have nomark: "take 1 (clean_of line) \<noteq> ''[''" by simp
  from clean k k0 have nohdr: "\<not> strcasecmp_eq (clean_of line) ''[Interface]''"
    unfolding strcasecmp_eq_def tolower_lit by auto
  from key have len: "length k = 8 \<and> map tolower k = ''address='' \<or>
                      length k = 4 \<and> map tolower k \<noteq> ''address=''"
    by (auto dest: arg_cong[where f = length])
  then show ?thesis
  proof
    assume a: "length k = 8 \<and> map tolower k = ''address=''"
    then have "strncasecmp_eq (clean_of line) ''Address='' 8"
      using clean by (simp add: strncasecmp_keys)
    with a clean v sec nomark nohdr show ?thesis
      by (simp add: parse_line_def Let_def)
  next
    assume a: "length k = 4 \<and> map tolower k \<noteq> ''address=''"
    then have t8: "map tolower (take 8 (clean_of line)) \<noteq> ''address=''"
    proof -
      have "take 4 (map tolower (take 8 (k @ v))) = map tolower k"
        using a by (simp add: take_map)
      moreover from key a have "map tolower k = ''dns='' \<or> map tolower k = ''mtu=''" by auto
      ultimately show ?thesis using clean by (auto dest: arg_cong[where f = "take 4"])
    qed
    then have noaddr: "\<not> strncasecmp_eq (clean_of line) ''Address='' 8"
      by (simp add: strncasecmp_keys)
    from a clean have t4: "map tolower (take 4 (clean_of line)) = map tolower k" by simp
    from key a have "map tolower k = ''dns='' \<or> map tolower k = ''mtu=''" by auto
    then show ?thesis
    proof
      assume d: "map tolower k = ''dns=''"
      with t4 have "strncasecmp_eq (clean_of line) ''DNS='' 4"
        by (simp add: strncasecmp_keys)
      with a d clean v sec nomark nohdr noaddr show ?thesis
        by (simp add: parse_line_def Let_def)
    next
      assume m: "map tolower k = ''mtu=''"
      with t4 have "strncasecmp_eq (clean_of line) ''MTU='' 4"
        by (simp add: strncasecmp_keys)
      moreover from m t4 have "\<not> strncasecmp_eq (clean_of line) ''DNS='' 4"
        by (simp add: strncasecmp_keys)
      ultimately show ?thesis using a m clean v sec nomark nohdr noaddr
        by (simp add: parse_line_def Let_def)
    qed
  qed
qed

text \<open>
  C8 as stated does not hold: settings are merged in every \<^verbatim>\<open>[Interface]\<close> section, not
  only in the leading one. In the file below the \<^verbatim>\<open>Address=\<close> line stands in a second
  \<^verbatim>\<open>[Interface]\<close> section, after a \<^verbatim>\<open>[Peer]\<close> section; it is merged into the addresses
  and does not reach the body.
\<close>

theorem loader_merges_in_later_section:
  "parse_options [''[Interface]'' @ [NL], ''[Peer]'' @ [NL], ''[Interface]'' @ [NL],
                  ''Address=10.0.0.1'' @ [NL]]
     = \<lparr>d_config = ''[Interface]'' @ [NL] @ ''[Peer]'' @ [NL] @ ''[Interface]'' @ [NL],
        d_mtu = 0, d_addrs = ''10.0.0.1'', d_dnses = ''''\<rparr>"
  by (simp add: parse_options_def parse_loop_def parse_line_def clean_of_def isspace_def
                strcasecmp_eq_def strncasecmp_eq_def tolower_def options_init_def
                concat_and_free_def Let_def)

text \<open>
  C8, amended. The loader computes the specified descriptor: a line is merged into the
  addresses, the resolvers or the MTU exactly when it carries such a setting with a
  non-empty value and lies within an \<^verbatim>\<open>[Interface]\<close> section, the leading one or a later
  one; the last merged \<^verbatim>\<open>MTU=\<close> line gives the MTU; every other line, section markers
  included, goes to the body unchanged and in file order.
\<close>

theorem loader_refines_spec: "parse_options ls = spec_descriptor ls"
  using parse_loop_spec[of ls]
  by (simp add: parse_options_def spec_descriptor_def Let_def str_of_def joined_def
           split: option.splits)

text \<open>
  C9. Recognition works on the copy of the line without white space and ignores case:
  within an \<^verbatim>\<open>[Interface]\<close> section, a line whose copy is a key \<^verbatim>\<open>Address=\<close>,
  \<^verbatim>\<open>DNS=\<close> or \<^verbatim>\<open>MTU=\<close>, in any mix of upper and lower case, followed by a value is
  merged with that value, and a line whose copy spells \<^verbatim>\<open>[Interface]\<close> in any case opens
  the section. So \<^verbatim>\<open>address = 10.0.0.1\<close> is recognised; the stored addresses and
  resolvers never contain white space (the MTU is stored as a number); and a line that is
  not merged is appended to the body as it was read.
\<close>

theorem recognition_ignores_space_and_case:
  "(clean_of line = k @ v \<and> v \<noteq> [] \<and> fst s \<and>
    map tolower k \<in> set [''address='', ''dns='', ''mtu='']
      \<longrightarrow> parse_line line s =
            (True,
             if map tolower k = ''address=''
             then (snd s)\<lparr>opt_addrs := Some (concat_and_free (opt_addrs (snd s)) '','' v)\<rparr>
             else if map tolower k = ''dns=''
             then (snd s)\<lparr>opt_dnses := Some (concat_and_free (opt_dnses (snd s)) '','' v)\<rparr>
             else (snd s)\<lparr>opt_mtu := word_of_int (atoi v)\<rparr>)) \<and>
   (map tolower (clean_of header) = ''[interface]'' \<longrightarrow> fst (parse_line header s)) \<and>
   d_addrs (parse_options [''[Interface]'' @ [NL], ''address = 10.0.0.1'' @ [NL]]) = ''10.0.0.1'' \<and>
   (\<forall>c\<in>set (d_addrs (parse_options ls) @ d_dnses (parse_options ls)). \<not> isspace c) \<and>
   (\<not> (fst (parse_line other s) \<and> setting_of other \<noteq> None)
      \<longrightarrow> snd (parse_line other s)
            = (snd s)\<lparr>opt_config := Some (str_of (opt_config (snd s)) @ other)\<rparr>)"
proof (intro conjI impI)
  assume "clean_of line = k @ v \<and> v \<noteq> [] \<and> fst s \<and>
          map tolower k \<in> set [''address='', ''dns='', ''mtu='']"
  then show "parse_line line s =
            (True,
             if map tolower k = ''address=''
             then (snd s)\<lparr>opt_addrs := Some (concat_and_free (opt_addrs (snd s)) '','' v)\<rparr>
             else if map tolower k = ''dns=''
             then (snd s)\<lparr>opt_dnses := Some (concat_and_free (opt_dnses (snd s)) '','' v)\<rparr>
             else (snd s)\<lparr>opt_mtu := word_of_int (atoi v)\<rparr>)"
    by (intro recognise_key) simp_all
next
  assume "map tolower (clean_of header) = ''[interface]''"
  then have "interface_marker header"
    unfolding interface_marker_def strcasecmp_eq_def tolower_lit .
  then show "fst (parse_line header s)" by (simp add: fst_parse_line)
next
  show "d_addrs (parse_options [''[Interface]'' @ [NL], ''address = 10.0.0.1'' @ [NL]])
          = ''10.0.0.1''"
    by (simp add: parse_options_def parse_loop_def parse_line_def clean_of_def isspace_def
                  strcasecmp_eq_def strncasecmp_eq_def tolower_def options_init_def
                  concat_and_free_def Let_def)
next
  have "no_space_fields (snd (parse_loop ls))" by (rule no_space_parse_loop)
  then show "\<forall>c\<in>set (d_addrs (parse_options ls) @ d_dnses (parse_options ls)). \<not> isspace c"
    by (auto simp: no_space_fields_def parse_options_def Let_def str_of_def
             split: option.splits)
next
  assume "\<not> (fst (parse_line other s) \<and> setting_of other \<noteq> None)"
  then show "snd (parse_line other s)
            = (snd s)\<lparr>opt_config := Some (str_of (opt_config (snd s)) @ other)\<rparr>"
    by (subst snd_parse_line)
       (auto simp: str_of_def concat_and_free_def split: option.splits)
qed

theorem recognition_ignores_space_and_case_witness:
  "clean_of (''Address = 10.0.0.1'' @ [NL]) = ''Address='' @ ''10.0.0.1'' \<and>
   ''10.0.0.1'' \<noteq> [] \<and> fst (True, options_init) \<and>
   map tolower ''Address='' \<in> set [''address='', ''dns='', ''mtu=''] \<and>
   parse_line (''Address = 10.0.0.1'' @ [NL]) (True, options_init)
     = (True, options_init\<lparr>opt_addrs := Some ''10.0.0.1''\<rparr>) \<and>
   map tolower (clean_of ('' [INTERFACE] '' @ [NL])) = ''[interface]'' \<and>
   fst (parse_line ('' [INTERFACE] '' @ [NL]) (True, options_init)) \<and>
   list_all (\<lambda>c. \<not> isspace c)
     (d_addrs (parse_options [''[Interface]'' @ [NL], ''DNS = 1.1.1.1'' @ [NL]])
      @ d_dnses (parse_options [''[Interface]'' @ [NL], ''DNS = 1.1.1.1'' @ [NL]])) \<and>
   \<not> (fst (parse_line (''PrivateKey = abc'' @ [NL]) (True, options_init)) \<and>
      setting_of (''PrivateKey = abc'' @ [NL]) \<noteq> None) \<and>
   snd (parse_line (''PrivateKey = abc'' @ [NL]) (True, options_init))
     = options_init\<lparr>opt_config := Some (''PrivateKey = abc'' @ [NL])\<rparr>"
  using recognition_ignores_space_and_case
          [of "''Address = 10.0.0.1'' @ [NL]" "''Address=''" "''10.0.0.1''"
              "(True, options_init)" "'' [INTERFACE] '' @ [NL]"
              "[''[Interface]'' @ [NL], ''DNS = 1.1.1.1'' @ [NL]]"
              "''PrivateKey = abc'' @ [NL]"]
  by (simp add: clean_of_def isspace_def tolower_def setting_of_def strncasecmp_eq_def
                options_init_def str_of_def concat_and_free_def Let_def list_all_iff)

section \<open>The process: frames and single steps\<close>

lemma extends_refl: "extends st st"
  by (simp add: extends_def)

lemma extends_trans: "extends a b \<Longrightarrow> extends b c \<Longrightarrow> extends a c"
  by (auto simp: extends_def)

lemma extends_emit: "extends st (emit e st)"
  by (simp add: extends_def emit_def)

lemma extends_emit2: "extends st st' \<Longrightarrow> extends st (emit e st')"
  using extends_emit extends_trans by blast

lemma frameI: "(\<And>st. extends st (snd (p st))) \<Longrightarrow> frame p"
  by (simp add: frame_def)

lemma frameD: "frame p \<Longrightarrow> p st = (r, st') \<Longrightarrow> extends st st'"
  by (auto simp: frame_def dest: spec[of _ st])

lemma frame_retp: "frame (retp x)"
  by (simp add: frame_def retp_def extends_refl)

lemma frame_exitp: "frame (exitp e)"
  by (simp add: frame_def exitp_def extends_refl)

lemma frame_bindp:
  assumes "frame m" "\<And>x. frame (f x)"
  shows "frame (bindp m f)"
proof (rule frameI)
  fix st
  obtain r st1 where m: "m st = (r, st1)" by (cases "m st")
  have e1: "extends st st1" by (rule frameD[OF assms(1) m])
  show "extends st (snd (bindp m f st))"
  proof (cases r)
    case (Ret x)
    obtain r2 st2 where f: "f x st1 = (r2, st2)" by (cases "f x st1")
    have "extends st1 st2" by (rule frameD[OF assms(2) f])
    with e1 have "extends st st2" by (rule extends_trans)
    with m Ret f show ?thesis by (simp add: bindp_def)
  qed (use m e1 in \<open>simp_all add: bindp_def\<close>)
qed

lemma snd_perror_exit [simp]: "snd (perror_exit env msg e st) = emit (Perror msg) st"
  by (simp add: perror_exit_def)

lemma fst_perror_exit [simp]:
  "fst (perror_exit env msg e st) = Exit (perror_errno env (trace st) e)"
  by (simp add: perror_exit_def)

lemma frame_xregcomp: "frame (xregcomp env regex)"
  by (simp add: frame_def xregcomp_def extends_refl extends_emit)

lemma frame_popen_read: "frame (popen_read env c)"
  by (auto simp: frame_def popen_read_def extends_emit extends_emit2 split: reply.splits)

lemma frame_end_of_stream: "frame (end_of_stream env eof)"
  by (simp add: frame_def end_of_stream_def extends_refl extends_emit)

lemma frame_getline_c: "frame (getline_c env c)"
  unfolding getline_c_def
  by (auto split: list.splits intro!: frame_bindp frame_retp frame_end_of_stream)

lemma frame_cmd_ret: "frame (cmd_ret env c)"
  unfolding cmd_ret_def by (intro frame_bindp frame_popen_read frame_getline_c)

lemma frame_cmd: "frame (cmd env c)"
  by (simp add: frame_def cmd_def Let_def extends_emit extends_emit2)

lemma frame_cndc: "frame (cndc env c)"
proof (rule frameI)
  fix st
  let ?st0 = "emit (Stdout (''[#] ndc '' @ c @ [NL])) st"
  obtain r st1 where m: "cmd_ret env (''ndc '' @ c) ?st0 = (r, st1)"
    by (cases "cmd_ret env (''ndc '' @ c) ?st0")
  have "extends ?st0 st1" by (rule frameD[OF frame_cmd_ret m])
  with extends_emit have e: "extends st st1" by (rule extends_trans)
  then show "extends st (snd (cndc env c st))"
    using m by (auto simp: cndc_def extends_emit2 split: outcome.splits option.splits)
qed


lemma frame_rule_loop: "frame (rule_loop env regex ls eof)"
  by (induction ls)
     (auto split: option.splits intro!: frame_bindp frame_retp frame_end_of_stream)

lemma frame_del_if: "frame (del_if env iface)"
  unfolding del_if_def Let_def
  by (auto split: option.splits prod.splits
           intro!: frame_bindp frame_retp frame_xregcomp frame_cmd frame_popen_read
                   frame_rule_loop frame_cndc)
















lemma bindp_Ret: "m st = (Ret x, st1) \<Longrightarrow> bindp m f st = f x st1"
  by (simp add: bindp_def)

lemma bindp_Exit: "m st = (Exit e, st1) \<Longrightarrow> bindp m f st = (Exit e, st1)"
  by (simp add: bindp_def)

lemma bindp_Diverge: "m st = (Diverge, st1) \<Longrightarrow> bindp m f st = (Diverge, st1)"
  by (simp add: bindp_def)

lemma cmd_ret_empty:
  assumes "length c < 8192" "popen_r env (trace st) c = Output [] 0 status"
  shows "cmd_ret env c st = (Ret (None, ([], 0)), emit (PopenR c) st)"
  using assms
  by (simp add: cmd_ret_def bindp_def popen_read_def getline_c_def end_of_stream_def retp_def)

lemma cmd_ret_line:
  assumes "length c < 8192" "popen_r env (trace st) c = Output (l # ls) eof status"
  shows "cmd_ret env c st = (Ret (Some l, (ls, eof)), emit (PopenR c) st)"
  using assms
  by (simp add: cmd_ret_def bindp_def popen_read_def getline_c_def retp_def)


lemma bindp_xregcomp_ok:
  "regcomp env regex = 0 \<Longrightarrow> bindp (xregcomp env regex) f st = f () st"
  by (simp add: bindp_def xregcomp_def)



lemma rule_loop_find:
  "rule_loop env regex ls eof =
     (case find (\<lambda>l. regexec env regex l \<noteq> None) ls of
        Some l \<Rightarrow> retp (Some (substr l (fst (the (regexec env regex l)))
                                        (snd (the (regexec env regex l)))))
      | None \<Rightarrow> bindp (end_of_stream env eof) (\<lambda>_. retp None))"
  by (induction ls) (auto split: option.splits)


section \<open>The resolver list\<close>

lemma strtok_from_le:
  "t \<in> set (strtok_from d tok s) \<Longrightarrow> length t \<le> length tok + length s"
  by (induction d tok s rule: strtok_from.induct) (auto split: if_splits)

lemma strtok_from_less:
  "t \<in> set (strtok_from d tok s) \<Longrightarrow> \<exists>c\<in>set s. c \<in> set d
     \<Longrightarrow> length t < length tok + length s"
proof (induction d tok s rule: strtok_from.induct)
  case (1 d tok)
  then show ?case by simp
next
  case (2 d tok c cs)
  show ?case
  proof (cases "c \<in> set d")
    case True
    with "2.prems"(1) have "t = tok \<or> t \<in> set (strtok_from d [] cs)"
      by (auto split: if_splits)
    then show ?thesis using strtok_from_le[of t d "[]" cs] by auto
  next
    case False
    with "2.prems" have "t \<in> set (strtok_from d (tok @ [c]) cs)" "\<exists>c\<in>set cs. c \<in> set d"
      by auto
    with "2.IH"(2)[OF False] show ?thesis by simp
  qed
qed

lemma strtok_from_nodelim:
  "\<forall>c\<in>set s. c \<notin> set d \<Longrightarrow>
     strtok_from d tok s = (if tok @ s = [] then [] else [tok @ s])"
  by (induction d tok s rule: strtok_from.induct) auto

lemma strtok_all_cases:
  "(\<forall>t\<in>set (strtok_all d s). length t < length s) \<or> strtok_all d s = [s]"
proof (cases "\<exists>c\<in>set s. c \<in> set d")
  case True
  then show ?thesis using strtok_from_less[of _ d "[]" s] by (auto simp: strtok_all_def)
next
  case False
  then have "strtok_all d s = (if s = [] then [] else [s])"
    using strtok_from_nodelim[of s d "[]"] by (auto simp: strtok_all_def)
  then show ?thesis by auto
qed

lemma dns_loop_eq:
  "dns_loop len ts acc =
     acc @ concat (map (\<lambda>t. take (len * 4 - 1) (dns_arg len t))
                       (filter (\<lambda>t. QUOTE \<notin> set t \<and> BACKSLASH \<notin> set t) ts))"
  by (induction ts arbitrary: acc) auto

lemma dns_arg_short:
  "length t < len \<Longrightarrow> len + 2 \<le> n \<Longrightarrow> take n (dns_arg len t) = quoted t @ '' ''"
  by (simp add: dns_arg_def quoted_def)

lemma dns_arg_whole:
  "length t = len \<Longrightarrow> len + 2 \<le> n \<Longrightarrow> take n (dns_arg len t) = quoted t"
  by (simp add: dns_arg_def quoted_def)

lemma strncat_bound: "0 < (len::nat) \<Longrightarrow> len + 2 \<le> len * 4 - 1"
  by simp

lemma join_Cons: "join d (x # xs) = x @ (if xs = [] then [] else d @ join d xs)"
  by (cases xs) auto

lemma concat_quoted:
  "ts \<noteq> [] \<Longrightarrow> concat (map (\<lambda>t. quoted t @ '' '') ts) = join '' '' (map quoted ts) @ '' ''"
  by (induction ts rule: join.induct[where ?a0.0 = "'' ''"]) auto

lemma dns_kept_single: "dns_kept dnses = [dnses] \<Longrightarrow> strtok_all dns_delims dnses = [dnses]"
proof -
  assume a: "dns_kept dnses = [dnses]"
  then have "dnses \<in> set (strtok_all dns_delims dnses)"
    by (metis dns_kept_def filter_is_subset list.set_intros(1) subsetD)
  with strtok_all_cases[of dns_delims dnses] show ?thesis by auto
qed

lemma dns_arglist:
  assumes "dnses \<noteq> []"
  shows "dns_loop (length dnses) (strtok_all dns_delims dnses) [] =
           (if dns_kept dnses = [] then []
            else join '' '' (map quoted (dns_kept dnses))
                 @ (if dns_kept dnses = [dnses] then [] else '' ''))"
proof -
  let ?len = "length dnses"
  let ?ok = "\<lambda>t. QUOTE \<notin> set t \<and> BACKSLASH \<notin> set t"
  from strtok_all_cases[of dns_delims dnses]
  show ?thesis
  proof
    assume short: "\<forall>t\<in>set (strtok_all dns_delims dnses). length t < ?len"
    then have ne: "dns_kept dnses \<noteq> [dnses]" by (auto dest: dns_kept_single)
    have m: "map (\<lambda>t. take (?len * 4 - 1) (dns_arg ?len t)) (dns_kept dnses)
            = map (\<lambda>t. quoted t @ '' '') (dns_kept dnses)"
    proof (intro map_cong refl)
      fix t assume "t \<in> set (dns_kept dnses)"
      with short have "length t < ?len" by (auto simp: dns_kept_def)
      then show "take (?len * 4 - 1) (dns_arg ?len t) = quoted t @ '' ''"
        by (intro dns_arg_short strncat_bound) auto
    qed
    have "dns_loop ?len (strtok_all dns_delims dnses) []
            = concat (map (\<lambda>t. take (?len * 4 - 1) (dns_arg ?len t)) (dns_kept dnses))"
      by (simp only: dns_loop_eq dns_kept_def append_Nil)
    also have "\<dots> = concat (map (\<lambda>t. quoted t @ '' '') (dns_kept dnses))"
      by (simp only: m)
    also have "\<dots> = (if dns_kept dnses = [] then []
                       else join '' '' (map quoted (dns_kept dnses)) @ '' '')"
      using concat_quoted[of "dns_kept dnses"] by (cases "dns_kept dnses = []") simp_all
    finally show ?thesis using ne by simp
  next
    assume whole: "strtok_all dns_delims dnses = [dnses]"
    have t: "take (?len * 4 - 1) (dns_arg ?len dnses) = quoted dnses"
      using assms by (intro dns_arg_whole strncat_bound) auto
    have "dns_loop ?len (strtok_all dns_delims dnses) []
            = concat (map (\<lambda>t. take (?len * 4 - 1) (dns_arg ?len t)) (dns_kept dnses))"
      by (simp only: dns_loop_eq dns_kept_def append_Nil)
    also have "\<dots> = (if dns_kept dnses = [] then [] else quoted dnses)"
      unfolding dns_kept_def whole using t by (simp del: One_nat_def)
    finally show ?thesis unfolding dns_kept_def whole by (simp del: One_nat_def)
  qed
qed

lemma join_quoted_nonempty: "ts \<noteq> [] \<Longrightarrow> join '' '' (map quoted ts) \<noteq> []"
  by (cases ts) (auto simp: join_Cons quoted_def)

lemma set_dnses_eq:
  "set_dnses env netid dnses =
     (if dns_kept dnses = [] then retp () else cndc env (dns_command netid dnses))"
proof (cases "dnses = []")
  case True
  then show ?thesis
    by (simp add: set_dnses_def dns_kept_def strtok_all_def)
next
  case False
  show ?thesis
  proof (cases "dns_kept dnses = []")
    case True
    with False show ?thesis by (simp add: set_dnses_def Let_def dns_arglist)
  next
    case ne: False
    then have "join '' '' (map quoted (dns_kept dnses)) \<noteq> []" by (rule join_quoted_nonempty)
    with False ne show ?thesis
      by (simp add: set_dnses_def Let_def dns_arglist dns_command_def)
  qed
qed

lemma cndc_issues:
  assumes "length (''ndc '' @ c) < 8192"
  shows "\<exists>r st'. cndc env c st = (r, st') \<and>
           prefix (trace st @ [Stdout (''[#] ndc '' @ c @ [NL]), PopenR (''ndc '' @ c)]) (trace st')"
proof -
  let ?st0 = "emit (Stdout (''[#] ndc '' @ c @ [NL])) st"
  let ?st1 = "emit (PopenR (''ndc '' @ c)) ?st0"
  obtain r st' where r: "cndc env c st = (r, st')" by (cases "cndc env c st")
  have "extends ?st1 st'"
  proof (cases "popen_r env (trace ?st0) (''ndc '' @ c)")
    case (PopenFailed e)
    with assms r show ?thesis
      by (auto simp: cndc_def cmd_ret_def bindp_def popen_read_def perror_exit_def extends_emit)
  next
    case (Output ls eof status)
    with assms have p: "popen_read env (''ndc '' @ c) ?st0 = (Ret (ls, eof), ?st1)"
      by (simp add: popen_read_def)
    obtain r2 st2 where g: "getline_c env (ls, eof) ?st1 = (r2, st2)"
      by (cases "getline_c env (ls, eof) ?st1")
    have e: "extends ?st1 st2" by (rule frameD[OF frame_getline_c g])
    from p g have "cmd_ret env (''ndc '' @ c) ?st0 = (r2, st2)"
      by (simp add: cmd_ret_def bindp_def)
    with r e show ?thesis
      by (auto simp: cndc_def extends_emit2 split: outcome.splits option.splits if_splits)
  qed
  then have "prefix (trace ?st1) (trace st')" by (simp add: extends_def)
  with r show ?thesis by (simp add: emit_def)
qed


section \<open>The MTU\<close>

lemma endpoint_loop_samples:
  "endpoint_loop env ls eof m st = (Ret m', st') \<Longrightarrow>
     m' = foldl mtu_step m (peer_samples env ls st)"
proof (induction ls arbitrary: m st)
  case Nil
  then show ?case
    by (auto simp: bindp_def end_of_stream_def perror_exit_def retp_def split: if_splits)
next
  case (Cons l ls)
  show ?case
  proof (cases "regexec env regex_endpoint l")
    case None
    with Cons show ?thesis by simp
  next
    case (Some p)
    obtain so eo where p: "p = (so, eo)" by (cases p)
    obtain r st1 where g: "get_route_mtu env (substr l so eo) st = (r, st1)"
      by (cases "get_route_mtu env (substr l so eo) st")
    with Cons.prems Some p obtain x where r: "r = Ret x"
      and rest: "endpoint_loop env ls eof (mtu_step m x) st1 = (Ret m', st')"
      by (cases r) auto
    from Cons.IH[OF rest] Some p g r show ?thesis by simp
  qed
qed

lemma sint_nonneg_uint:
  assumes "0 \<le> sint (w :: 32 word)"
  shows "uint w = sint w"
proof -
  have "sint w < 2 ^ 31" using sint_lt[of w] by simp
  then have "sint w < 2 ^ 32" by simp
  with assms have "take_bit 32 (sint w) = sint w" by (intro take_bit_int_eq_self) auto
  then show ?thesis using uint_sint[of w] by simp
qed

lemma mtu_step_sint:
  assumes m: "0 \<le> sint m" and x: "x = - 1 \<or> 0 \<le> sint x"
  shows "sint (mtu_step m x) = (if 0 < sint x then min (sint m) (sint x) else sint m)"
proof (cases "x = - 1")
  case True
  have "\<not> (- 1 :: 32 word) < m" by (simp add: not_less)
  with True show ?thesis by (simp add: mtu_step_def)
next
  case False
  with x have nx: "0 \<le> sint x" by simp
  have ux: "uint x = sint x" and um: "uint m = sint m"
    using nx m by (simp_all add: sint_nonneg_uint)
  have pos: "0 < x \<longleftrightarrow> 0 < sint x"
    using ux by (simp add: word_less_def)
  have lt: "x < m \<longleftrightarrow> sint x < sint m"
    using ux um by (simp add: word_less_def)
  show ?thesis by (auto simp: mtu_step_def pos lt)
qed

lemma mtu_fold_sint:
  assumes "0 \<le> sint m" "\<forall>x\<in>set xs. x = - 1 \<or> 0 \<le> sint x"
  shows "sint (foldl mtu_step m xs) = min_mtu (sint m) xs"
  using assms
proof (induction xs arbitrary: m)
  case Nil
  then show ?case by (simp add: min_mtu_def)
next
  case (Cons x xs)
  from Cons.prems have x: "x = - 1 \<or> 0 \<le> sint x" by simp
  note step = mtu_step_sint[OF Cons.prems(1) x]
  have nn: "0 \<le> sint (mtu_step m x)" using step Cons.prems(1) x by (auto split: if_splits)
  have "sint (foldl mtu_step (mtu_step m x) xs) = min_mtu (sint (mtu_step m x)) xs"
    using Cons.prems(2) by (intro Cons.IH nn) simp
  also have "\<dots> = min_mtu (sint m) (x # xs)"
  proof (cases "0 < sint x")
    case True
    let ?S = "set (map sint (filter (\<lambda>x. 0 < sint x) xs))"
    have "Min (insert (min (sint m) (sint x)) ?S) = Min (insert (sint m) (insert (sint x) ?S))"
      by (cases "?S = {}") (simp_all add: min.assoc)
    with True step show ?thesis by (simp add: min_mtu_def)
  next
    case False
    with step show ?thesis by (simp add: min_mtu_def)
  qed
  finally show ?case by simp
qed

lemma mtu_fold_nonneg:
  assumes "0 \<le> sint m" "\<forall>x\<in>set xs. x = - 1 \<or> 0 \<le> sint x"
  shows "0 \<le> sint (foldl mtu_step m xs)"
  using assms
proof (induction xs arbitrary: m)
  case Nil
  then show ?case by simp
next
  case (Cons x xs)
  from Cons.prems have x: "x = - 1 \<or> 0 \<le> sint x" by simp
  have "0 \<le> sint (mtu_step m x)"
    using mtu_step_sint[OF Cons.prems(1) x] Cons.prems(1) x by (auto split: if_splits)
  then show ?case using Cons.prems(2) by (simp add: Cons.IH)
qed

lemma sint_minus_80:
  assumes "0 \<le> sint (w :: 32 word)"
  shows "sint (w - 80) = sint w - 80"
proof -
  have b: "sint w < 2 ^ 31" using sint_lt[of w] by simp
  have "sint (w - 80) = signed_take_bit 31 (sint w - sint (80 :: 32 word))"
    by (simp add: sint_word_ariths)
  also have "sint (80 :: 32 word) = 80" by simp
  also have "signed_take_bit 31 (sint w - 80) = sint w - 80"
    using assms b by (intro signed_take_bit_int_eq_self) auto
  finally show ?thesis .
qed

section \<open>The properties of the process\<close>




text \<open>
  C5. When the probe of \<^verbatim>\<open>cmd_up\<close> prints a line (an interface of that name exists),
  the process writes \<^verbatim>\<open>Error: ... already exists\<close> to the error stream and ends with
  status 92; when the first line of \<^verbatim>\<open>wg show interfaces\<close> does not list the name (or
  there is no line), \<^verbatim>\<open>cmd_down\<close> writes \<^verbatim>\<open>Error: ... is not a WireGuard interface\<close>
  and ends with status 43. In both cases the process has run the probe and nothing else:
  no \<^verbatim>\<open>system\<close> command, no other pipe, and the exit hook is not registered.
\<close>

theorem precondition_failures:
  assumes fresh: "\<not> atexit_hook st" and short: "length iface \<le> 16"
  shows "(popen_r env (trace st) (probe iface) = Output (l # ls) eof status
            \<longrightarrow> run env (cmd_up env iface config m addrs dnses) st
                  = (Exit 92, emit (Stderr (''Error: '' @ iface @ '' already exists'' @ [NL]))
                                (emit (PopenR (probe iface)) st))) \<and>
         (popen_r env (trace st) ''wg show interfaces'' = Output ls' eof' status' \<and>
          (case ls' of [] \<Rightarrow> eof' = 0 | l' # rest \<Rightarrow> iface \<notin> set (strtok_all [CHR 0x20, NL] l'))
            \<longrightarrow> run env (cmd_down env iface) st
                  = (Exit 43, emit (Stderr (''Error: '' @ iface
                                            @ '' is not a WireGuard interface'' @ [NL]))
                                (emit (PopenR ''wg show interfaces'') st)))"
proof (intro conjI impI)
  from short have len: "length (probe iface) < 8192" by (simp add: probe_def)
  assume "popen_r env (trace st) (probe iface) = Output (l # ls) eof status"
  from cmd_ret_line[OF len this]
  have "cmd_up env iface config m addrs dnses st
          = (Exit 92, emit (Stderr (''Error: '' @ iface @ '' already exists'' @ [NL]))
                        (emit (PopenR (probe iface)) st))"
    by (simp add: cmd_up_def bindp_def probe_def)
  with fresh show "run env (cmd_up env iface config m addrs dnses) st
                  = (Exit 92, emit (Stderr (''Error: '' @ iface @ '' already exists'' @ [NL]))
                                (emit (PopenR (probe iface)) st))"
    by (simp add: run_def process_exit_def emit_def)
next
  assume a: "popen_r env (trace st) ''wg show interfaces'' = Output ls' eof' status' \<and>
          (case ls' of [] \<Rightarrow> eof' = 0 | l' # rest \<Rightarrow> iface \<notin> set (strtok_all [CHR 0x20, NL] l'))"
  have len: "length ''wg show interfaces'' < 8192" by simp
  have "cmd_down env iface st
          = (Exit 43, emit (Stderr (''Error: '' @ iface
                                    @ '' is not a WireGuard interface'' @ [NL]))
                        (emit (PopenR ''wg show interfaces'') st))"
  proof (cases ls')
    case Nil
    with a have "popen_r env (trace st) ''wg show interfaces'' = Output [] 0 status'" by simp
    from cmd_ret_empty[OF len this] show ?thesis
      by (simp add: cmd_down_def bindp_def Let_def)
  next
    case (Cons l' rest)
    with a have p: "popen_r env (trace st) ''wg show interfaces'' = Output (l' # rest) eof' status'"
      and nf: "iface \<notin> set (strtok_all [CHR 0x20, NL] l')" by simp_all
    from cmd_ret_line[OF len p] nf show ?thesis
      by (simp add: cmd_down_def bindp_def Let_def)
  qed
  with fresh show "run env (cmd_down env iface) st
                  = (Exit 43, emit (Stderr (''Error: '' @ iface
                                            @ '' is not a WireGuard interface'' @ [NL]))
                                (emit (PopenR ''wg show interfaces'') st))"
    by (simp add: run_def process_exit_def emit_def)
qed

text \<open>
  On the host where \<^verbatim>\<open>wg0\<close> is up: \<^verbatim>\<open>up wg0\<close> ends with 92, \<^verbatim>\<open>down wg2\<close> with 43.
\<close>

theorem precondition_failures_witness:
  "\<not> atexit_hook start \<and> length ''wg0'' \<le> 16 \<and> length ''wg2'' \<le> 16 \<and>
   popen_r host_up (trace start) (probe ''wg0'')
     = Output [''7: wg0: <POINTOPOINT,NOARP,UP> mtu 1320'' @ [NL]] 0 0 \<and>
   run host_up (cmd_up host_up ''wg0'' (''[Peer]'' @ [NL]) 0 ''10.0.0.2/24'' ''1.1.1.1'') start
     = (Exit 92, emit (Stderr (''Error: '' @ ''wg0'' @ '' already exists'' @ [NL]))
                   (emit (PopenR (probe ''wg0'')) start)) \<and>
   popen_r host_up (trace start) ''wg show interfaces'' = Output [''wg0 wg1'' @ [NL]] 0 0 \<and>
   ''wg2'' \<notin> set (strtok_all [CHR 0x20, NL] (''wg0 wg1'' @ [NL])) \<and>
   run host_up (cmd_down host_up ''wg2'') start
     = (Exit 43, emit (Stderr (''Error: '' @ ''wg2'' @ '' is not a WireGuard interface'' @ [NL]))
                   (emit (PopenR ''wg show interfaces'') start))"
proof -
  have fresh: "\<not> atexit_hook start" by (simp add: start_def)
  have s0: "length ''wg0'' \<le> 16" and s2: "length ''wg2'' \<le> 16" by simp_all
  have p: "popen_r host_up (trace start) (probe ''wg0'')
             = Output [''7: wg0: <POINTOPOINT,NOARP,UP> mtu 1320'' @ [NL]] 0 0"
    by (simp add: model_defs host_defs)
  have q: "popen_r host_up (trace start) ''wg show interfaces'' = Output [''wg0 wg1'' @ [NL]] 0 0"
    by (simp add: model_defs host_defs)
  have n: "''wg2'' \<notin> set (strtok_all [CHR 0x20, NL] (''wg0 wg1'' @ [NL]))"
    by (simp add: strtok_all_def)
  note up = precondition_failures
              [where config = "''[Peer]'' @ [NL]" and m = 0 and addrs = "''10.0.0.2/24''"
                 and dnses = "''1.1.1.1''" and env = host_up and l = "''7: wg0: <POINTOPOINT,NOARP,UP> mtu 1320'' @ [NL]"
                 and ls = "[]" and eof = 0 and status = 0,
               OF fresh s0, THEN conjunct1, rule_format, OF p]
  note down = precondition_failures
              [where env = host_up and ls' = "[''wg0 wg1'' @ [NL]]" and eof' = 0 and status' = 0,
               OF fresh s2, THEN conjunct2, rule_format]
  have "run host_up (cmd_down host_up ''wg2'') start
     = (Exit 43, emit (Stderr (''Error: '' @ ''wg2'' @ '' is not a WireGuard interface'' @ [NL]))
                   (emit (PopenR ''wg show interfaces'') start))"
    using q n by (intro down) simp
  with fresh s0 s2 p up q n show ?thesis by blast
qed

text \<open>
  C3 as stated does not hold: not every command that ends with a nonzero status ends the
  process. On the host without \<^verbatim>\<open>wg0\<close> the probe \<^verbatim>\<open>ip link show dev wg0\<close>, the first
  command that \<^verbatim>\<open>cmd_up\<close> runs, ends with status 1; the process goes on and ends with
  status 0.
\<close>

theorem probe_status_is_ignored:
  "popen_r host_down (trace start) ''ip link show dev wg0 2>/dev/null'' = Output [] 0 1 \<and>
   hd (trace (snd (run host_down
         (cmd_up host_down ''wg0'' (''[Peer]'' @ [NL]) 0 ''10.0.0.2/24'' ''1.1.1.1'') start)))
     = PopenR ''ip link show dev wg0 2>/dev/null'' \<and>
   fst (run host_down
         (cmd_up host_down ''wg0'' (''[Peer]'' @ [NL]) 0 ''10.0.0.2/24'' ''1.1.1.1'') start)
     = Exit 0"
  using host_down_netid by (simp add: model_defs host_defs)

text \<open>
  C3, amended. A command run through \<^verbatim>\<open>cmd\<close> for which \<^verbatim>\<open>system\<close> returns a nonzero
  value ends the process, unless the exit hook is unwinding (\<^verbatim>\<open>is_exiting\<close>), when
  \<^verbatim>\<open>cmd\<close> returns and the hook goes on. Outside the hook, a request to the policy
  daemon ends the process through \<^verbatim>\<open>exit(29)\<close> when its first output line is missing or
  lacks \<^verbatim>\<open>200 0\<close>, whatever the exit status of \<^verbatim>\<open>ndc\<close>. The exit status of a command whose
  output is read through a pipe, and of \<^verbatim>\<open>wg setconf\<close>, is not looked at: whether the
  command printed a line or nothing, the process goes on.
\<close>

theorem command_failures:
  "(length c < 8192 \<and> system_ret env (trace st @ [Stdout (''[#] '' @ c @ [NL])]) c \<noteq> 0
      \<longrightarrow> (if is_exiting st
           then cmd env c st
                  = (Ret (), emit (System c) (emit (Stdout (''[#] '' @ c @ [NL])) st))
           else \<exists>e. cmd env c st
                  = (Exit e, emit (System c) (emit (Stdout (''[#] '' @ c @ [NL])) st)))) \<and>
   (\<not> is_exiting st \<and> length (''ndc '' @ n) < 8192 \<and>
    popen_r env (trace st @ [Stdout (''[#] ndc '' @ n @ [NL])]) (''ndc '' @ n)
      = Output ls eof status \<and>
    (case ls of [] \<Rightarrow> eof = 0 | l # rest \<Rightarrow> \<not> strstr l ''200 0'')
      \<longrightarrow> fst (cndc env n st) = Exit 29) \<and>
   (length q < 8192 \<and> popen_r env (trace st) q = Output ls' eof' status' \<and>
    (ls' = [] \<longrightarrow> eof' = 0)
      \<longrightarrow> cmd_ret env q st
            = (Ret (case ls' of [] \<Rightarrow> None | l' # rest' \<Rightarrow> Some l', (tl ls', eof')),
               emit (PopenR q) st)) \<and>
   (popen_w env (trace st @ [Stdout (''[#] wg setconf '' @ iface @ '' /proc/self/fd/0'' @ [NL])])
            (''wg setconf '' @ iface @ '' /proc/self/fd/0'') conf = WDone wstatus
      \<longrightarrow> fst (set_config env iface conf st) = Ret ())"
proof (intro conjI impI)
  assume "length c < 8192 \<and> system_ret env (trace st @ [Stdout (''[#] '' @ c @ [NL])]) c \<noteq> 0"
  then show "if is_exiting st
           then cmd env c st
                  = (Ret (), emit (System c) (emit (Stdout (''[#] '' @ c @ [NL])) st))
           else \<exists>e. cmd env c st
                  = (Exit e, emit (System c) (emit (Stdout (''[#] '' @ c @ [NL])) st))"
    by (simp add: cmd_def Let_def emit_def)
next
  assume a: "\<not> is_exiting st \<and> length (''ndc '' @ n) < 8192 \<and>
    popen_r env (trace st @ [Stdout (''[#] ndc '' @ n @ [NL])]) (''ndc '' @ n)
      = Output ls eof status \<and>
    (case ls of [] \<Rightarrow> eof = 0 | l # rest \<Rightarrow> \<not> strstr l ''200 0'')"
  let ?st0 = "emit (Stdout (''[#] ndc '' @ n @ [NL])) st"
  from a have len: "length (''ndc '' @ n) < 8192" by simp
  from a have p: "popen_r env (trace ?st0) (''ndc '' @ n) = Output ls eof status"
    by (simp add: emit_def)
  show "fst (cndc env n st) = Exit 29"
  proof (cases ls)
    case Nil
    with a p have "popen_r env (trace ?st0) (''ndc '' @ n) = Output [] 0 status" by simp
    from cmd_ret_empty[OF len this] show ?thesis by (simp add: cndc_def)
  next
    case (Cons l rest)
    with a p have "popen_r env (trace ?st0) (''ndc '' @ n) = Output (l # rest) eof status"
      and "\<not> strstr l ''200 0''" by simp_all
    with cmd_ret_line[OF len, of env ?st0 l rest eof status] show ?thesis
      by (simp add: cndc_def)
  qed
next
  assume a: "length q < 8192 \<and> popen_r env (trace st) q = Output ls' eof' status' \<and>
    (ls' = [] \<longrightarrow> eof' = 0)"
  show "cmd_ret env q st
            = (Ret (case ls' of [] \<Rightarrow> None | l' # rest' \<Rightarrow> Some l', (tl ls', eof')),
               emit (PopenR q) st)"
  proof (cases ls')
    case Nil
    with a have "length q < 8192" and "popen_r env (trace st) q = Output [] 0 status'"
      and "eof' = 0" by simp_all
    with cmd_ret_empty[of q env st status'] Nil show ?thesis by simp
  next
    case (Cons l rest)
    with a show ?thesis by (simp add: cmd_ret_line)
  qed
next
  assume "popen_w env (trace st @ [Stdout (''[#] wg setconf '' @ iface @ '' /proc/self/fd/0'' @ [NL])])
            (''wg setconf '' @ iface @ '' /proc/self/fd/0'') conf = WDone wstatus"
  then show "fst (set_config env iface conf st) = Ret ()"
    by (simp add: set_config_def Let_def emit_def)
qed

text \<open>
  On the hosts above: a failing \<^verbatim>\<open>ip link add\<close> ends the process, and is passed over
  while the hook unwinds; a refused request to the policy daemon calls \<^verbatim>\<open>exit(29)\<close>;
  the probe, which prints nothing and ends with status 1 where \<^verbatim>\<open>wg0\<close> is missing and
  prints a line where it is up, comes back in both cases, and so does \<^verbatim>\<open>wg setconf\<close>.
\<close>

theorem command_failures_witness:
  "length ''ip link add wg0 type wireguard'' < 8192 \<and>
   system_ret host_add_fails
     (trace start @ [Stdout (''[#] '' @ ''ip link add wg0 type wireguard'' @ [NL])])
     ''ip link add wg0 type wireguard'' \<noteq> 0 \<and>
   \<not> is_exiting start \<and>
   (\<exists>e. cmd host_add_fails ''ip link add wg0 type wireguard'' start
           = (Exit e, emit (System ''ip link add wg0 type wireguard'')
                        (emit (Stdout (''[#] '' @ ''ip link add wg0 type wireguard'' @ [NL]))
                           start))) \<and>
   cmd host_add_fails ''ip link add wg0 type wireguard'' (start\<lparr>is_exiting := True\<rparr>)
     = (Ret (), emit (System ''ip link add wg0 type wireguard'')
                  (emit (Stdout (''[#] '' @ ''ip link add wg0 type wireguard'' @ [NL]))
                     (start\<lparr>is_exiting := True\<rparr>))) \<and>
   popen_r host_mtu_refused
     (trace start @ [Stdout (''[#] ndc '' @ ''interface setmtu wg0 1320'' @ [NL])])
     (''ndc '' @ ''interface setmtu wg0 1320'') = Output [''400 0 refused'' @ [NL]] 0 0 \<and>
   \<not> strstr (''400 0 refused'' @ [NL]) ''200 0'' \<and>
   fst (cndc host_mtu_refused ''interface setmtu wg0 1320'' start) = Exit 29 \<and>
   popen_r host_down (trace start) (probe ''wg0'') = Output [] 0 1 \<and>
   cmd_ret host_down (probe ''wg0'') start
     = (Ret (None, ([], 0)), emit (PopenR (probe ''wg0'')) start) \<and>
   popen_r host_up (trace start) (probe ''wg0'')
     = Output [''7: wg0: <POINTOPOINT,NOARP,UP> mtu 1320'' @ [NL]] 0 0 \<and>
   cmd_ret host_up (probe ''wg0'') start
     = (Ret (Some (''7: wg0: <POINTOPOINT,NOARP,UP> mtu 1320'' @ [NL]), ([], 0)),
        emit (PopenR (probe ''wg0'')) start) \<and>
   popen_w host_down
     (trace start @ [Stdout (''[#] wg setconf '' @ ''wg0'' @ '' /proc/self/fd/0'' @ [NL])])
     (''wg setconf '' @ ''wg0'' @ '' /proc/self/fd/0'') (''[Peer]'' @ [NL]) = WDone 0 \<and>
   fst (set_config host_down ''wg0'' (''[Peer]'' @ [NL]) start) = Ret ()"
proof -
  let ?add = "''ip link add wg0 type wireguard''"
  let ?line = "''7: wg0: <POINTOPOINT,NOARP,UP> mtu 1320'' @ [NL]"
  let ?hook = "start\<lparr>is_exiting := True\<rparr>"
  have a1: "length ?add < 8192 \<and>
            system_ret host_add_fails (trace start @ [Stdout (''[#] '' @ ?add @ [NL])]) ?add \<noteq> 0"
    by (simp add: host_defs)
  have a1': "length ?add < 8192 \<and>
            system_ret host_add_fails (trace ?hook @ [Stdout (''[#] '' @ ?add @ [NL])]) ?add \<noteq> 0"
    by (simp add: host_defs)
  have ne: "\<not> is_exiting start" and ex: "is_exiting ?hook" by (simp_all add: start_def)
  have a2: "\<not> is_exiting start \<and> length (''ndc '' @ ''interface setmtu wg0 1320'') < 8192 \<and>
            popen_r host_mtu_refused
              (trace start @ [Stdout (''[#] ndc '' @ ''interface setmtu wg0 1320'' @ [NL])])
              (''ndc '' @ ''interface setmtu wg0 1320'') = Output [''400 0 refused'' @ [NL]] 0 0 \<and>
            (case [''400 0 refused'' @ [NL]] of [] \<Rightarrow> (0::int) = 0
             | l # rest \<Rightarrow> \<not> strstr l ''200 0'')"
    by (simp add: host_defs start_def)
  have a3: "length (probe ''wg0'') < 8192 \<and>
            popen_r host_up (trace start) (probe ''wg0'') = Output [?line] 0 0 \<and>
            ([?line] = [] \<longrightarrow> (0::int) = 0)"
    by (simp add: host_defs probe_def)
  have a3': "length (probe ''wg0'') < 8192 \<and>
            popen_r host_down (trace start) (probe ''wg0'') = Output [] 0 1 \<and>
            (([]::string list) = [] \<longrightarrow> (0::int) = 0)"
    by (simp add: host_defs probe_def)
  have a4: "popen_w host_down
              (trace start @ [Stdout (''[#] wg setconf '' @ ''wg0'' @ '' /proc/self/fd/0'' @ [NL])])
              (''wg setconf '' @ ''wg0'' @ '' /proc/self/fd/0'') (''[Peer]'' @ [NL]) = WDone 0"
    by (simp add: host_defs)
  note c1 = command_failures[where env = host_add_fails and st = start and c = ?add,
                             THEN conjunct1, rule_format, OF a1]
  note c1' = command_failures[where env = host_add_fails and st = ?hook and c = ?add,
                              THEN conjunct1, rule_format, OF a1']
  note c2 = command_failures[where env = host_mtu_refused and st = start
                               and n = "''interface setmtu wg0 1320''"
                               and ls = "[''400 0 refused'' @ [NL]]" and eof = 0 and status = 0,
                             THEN conjunct2, THEN conjunct1, rule_format, OF a2]
  note c3 = command_failures[where env = host_up and st = start and q = "probe ''wg0''"
                               and ls' = "[?line]" and eof' = 0 and status' = 0,
                             THEN conjunct2, THEN conjunct2, THEN conjunct1, rule_format, OF a3]
  note c3' = command_failures[where env = host_down and st = start and q = "probe ''wg0''"
                               and ls' = "[]" and eof' = 0 and status' = 1,
                             THEN conjunct2, THEN conjunct2, THEN conjunct1, rule_format, OF a3']
  note c4 = command_failures[where env = host_down and st = start and iface = "''wg0''"
                               and conf = "''[Peer]'' @ [NL]" and wstatus = 0,
                             THEN conjunct2, THEN conjunct2, THEN conjunct2, rule_format, OF a4]
  have c1s: "\<exists>e. cmd host_add_fails ?add start
                   = (Exit e, emit (System ?add) (emit (Stdout (''[#] '' @ ?add @ [NL])) start))"
    using c1 ne by (simp only: if_False)
  have c1s': "cmd host_add_fails ?add ?hook
                = (Ret (), emit (System ?add) (emit (Stdout (''[#] '' @ ?add @ [NL])) ?hook))"
    using c1' ex by (simp only: if_True)
  have c3s: "cmd_ret host_up (probe ''wg0'') start
               = (Ret (Some ?line, ([], 0)), emit (PopenR (probe ''wg0'')) start)"
    using c3 by simp
  have c3s': "cmd_ret host_down (probe ''wg0'') start
                = (Ret (None, ([], 0)), emit (PopenR (probe ''wg0'')) start)"
    using c3' by simp
  have ns: "\<not> strstr (''400 0 refused'' @ [NL]) ''200 0''" by simp
  from a1 have a1l: "length ?add < 8192"
    and a1r: "system_ret host_add_fails (trace start @ [Stdout (''[#] '' @ ?add @ [NL])]) ?add \<noteq> 0"
    by simp_all
  from a2 have a2p: "popen_r host_mtu_refused
              (trace start @ [Stdout (''[#] ndc '' @ ''interface setmtu wg0 1320'' @ [NL])])
              (''ndc '' @ ''interface setmtu wg0 1320'') = Output [''400 0 refused'' @ [NL]] 0 0"
    by simp
  from a3 have a3p: "popen_r host_up (trace start) (probe ''wg0'') = Output [?line] 0 0" by simp
  from a3' have a3p': "popen_r host_down (trace start) (probe ''wg0'') = Output [] 0 1" by simp
  show ?thesis
    by (intro conjI a1l a1r ne c1s c1s' a2p ns c2 a3p' c3s' a3p c3s a4 c4)
qed
text \<open>
  C4 as stated does not hold: on the host where \<^verbatim>\<open>wg0\<close> is up and bound to the network
  0x1170, \<^verbatim>\<open>down\<close> deletes the interface and then itself asks the policy daemon to
  destroy the network 4464.
\<close>

theorem down_destroys_network:
  "run host_up (cmd_down host_up ''wg0'') start
     = (Exit 0,
        \<lparr>trace = [PopenR ''wg show interfaces'',
                  Stdout (''[#] ip link del wg0'' @ [NL]),
                  System ''ip link del wg0'',
                  PopenR ''ip rule show'',
                  Stdout (''[#] ndc network destroy 4464'' @ [NL]),
                  PopenR ''ndc network destroy 4464''],
         is_exiting = False, cleanup_iface = None, atexit_hook = False\<rparr>)"
  by (simp add: model_defs host_defs)

text \<open>
  C4, amended. On the way down, after \<^verbatim>\<open>ip link del\<close>, \<^verbatim>\<open>del_if\<close> reads
  \<^verbatim>\<open>ip rule show\<close>; at the first line that the rule pattern of the interface matches it
  asks the policy daemon to destroy the network whose id, in hexadecimal, the line
  carries (\<^verbatim>\<open>ndc network destroy\<close>); only when no line matches does it leave the
  binding to the policy daemon and run no further command.
\<close>

theorem down_destroys_binding:
  assumes rx: "regcomp env (''0xc([0-9a-f]+)/0xcffff lookup '' @ iface) = 0"
    and del: "cmd env (''ip link del '' @ iface) st = (Ret (), st1)"
    and rules: "popen_r env (trace st1) ''ip rule show'' = Output lines eof status"
  shows "(find (\<lambda>l. regexec env (''0xc([0-9a-f]+)/0xcffff lookup '' @ iface) l \<noteq> None) lines
            = Some l \<and>
          regexec env (''0xc([0-9a-f]+)/0xcffff lookup '' @ iface) l = Some (so, eo)
            \<longrightarrow> del_if env iface st
                  = cndc env (''network destroy '' @ dec (strtoul16 (substr l so eo)))
                      (emit (PopenR ''ip rule show'') st1)) \<and>
         (find (\<lambda>l. regexec env (''0xc([0-9a-f]+)/0xcffff lookup '' @ iface) l \<noteq> None) lines
            = None \<and> eof = 0
            \<longrightarrow> del_if env iface st = (Ret (), emit (PopenR ''ip rule show'') st1))"
proof -
  let ?regex = "''0xc([0-9a-f]+)/0xcffff lookup '' @ iface"
  let ?st2 = "emit (PopenR ''ip rule show'') st1"
  have pr: "popen_read env ''ip rule show'' st1 = (Ret (lines, eof), ?st2)"
    using rules by (simp add: popen_read_def)
  have d: "del_if env iface st =
             bindp (rule_loop env ?regex lines eof) (\<lambda>netid.
               case netid of
                 None \<Rightarrow> retp ()
               | Some n \<Rightarrow> cndc env (''network destroy '' @ dec (strtoul16 n))) ?st2"
    unfolding del_if_def Let_def
    by (simp only: bindp_xregcomp_ok[OF rx]
                   bindp_Ret[where m = "cmd env (''ip link del '' @ iface)", OF del]
                   bindp_Ret[where m = "popen_read env ''ip rule show''", OF pr] prod.case)
  show ?thesis
    unfolding d rule_loop_find
    by (auto simp: bindp_def retp_def end_of_stream_def)
qed

text \<open>
  On the host where \<^verbatim>\<open>wg0\<close> is bound to the network 0x1170 the second rule matches and
  \<^verbatim>\<open>del_if\<close> asks for the network 4464 to be destroyed; on the host without a rule for
  \<^verbatim>\<open>wg0\<close> it runs nothing more.
\<close>

theorem down_destroys_binding_witness:
  "regcomp host_up (''0xc([0-9a-f]+)/0xcffff lookup '' @ ''wg0'') = 0 \<and>
   cmd host_up (''ip link del '' @ ''wg0'') start
     = (Ret (), emit (System ''ip link del wg0'') (emit (Stdout (''[#] ip link del wg0'' @ [NL])) start)) \<and>
   popen_r host_up
     (trace (emit (System ''ip link del wg0'') (emit (Stdout (''[#] ip link del wg0'' @ [NL])) start)))
     ''ip rule show''
     = Output [''0:'' @ [TAB] @ ''from all lookup local'' @ [NL],
               ''13000:'' @ [TAB] @ ''from all fwmark 0xc1170/0xcffff lookup wg0'' @ [NL]] 0 0 \<and>
   find (\<lambda>l. regexec host_up (''0xc([0-9a-f]+)/0xcffff lookup '' @ ''wg0'') l \<noteq> None)
     [''0:'' @ [TAB] @ ''from all lookup local'' @ [NL],
      ''13000:'' @ [TAB] @ ''from all fwmark 0xc1170/0xcffff lookup wg0'' @ [NL]]
     = Some (''13000:'' @ [TAB] @ ''from all fwmark 0xc1170/0xcffff lookup wg0'' @ [NL]) \<and>
   regexec host_up (''0xc([0-9a-f]+)/0xcffff lookup '' @ ''wg0'')
     (''13000:'' @ [TAB] @ ''from all fwmark 0xc1170/0xcffff lookup wg0'' @ [NL]) = Some (26, 30) \<and>
   ''network destroy ''
     @ dec (strtoul16 (substr (''13000:'' @ [TAB] @ ''from all fwmark 0xc1170/0xcffff lookup wg0''
                               @ [NL]) 26 30))
     = ''network destroy 4464'' \<and>
   del_if host_up ''wg0'' start
     = cndc host_up ''network destroy 4464''
         (emit (PopenR ''ip rule show'')
            (emit (System ''ip link del wg0'') (emit (Stdout (''[#] ip link del wg0'' @ [NL])) start))) \<and>
   popen_r host_down
     (trace (emit (System ''ip link del wg0'') (emit (Stdout (''[#] ip link del wg0'' @ [NL])) start)))
     ''ip rule show''
     = Output [''0:'' @ [TAB] @ ''from all lookup local'' @ [NL]] 0 0 \<and>
   find (\<lambda>l. regexec host_down (''0xc([0-9a-f]+)/0xcffff lookup '' @ ''wg0'') l \<noteq> None)
     [''0:'' @ [TAB] @ ''from all lookup local'' @ [NL]] = None \<and>
   del_if host_down ''wg0'' start
     = (Ret (), emit (PopenR ''ip rule show'')
                  (emit (System ''ip link del wg0'')
                     (emit (Stdout (''[#] ip link del wg0'' @ [NL])) start)))"
proof -
  let ?st1 = "emit (System ''ip link del wg0'') (emit (Stdout (''[#] ip link del wg0'' @ [NL])) start)"
  let ?l0 = "''0:'' @ [TAB] @ ''from all lookup local'' @ [NL]"
  let ?l1 = "''13000:'' @ [TAB] @ ''from all fwmark 0xc1170/0xcffff lookup wg0'' @ [NL]"
  let ?rx = "''0xc([0-9a-f]+)/0xcffff lookup '' @ ''wg0''"
  have rx: "regcomp host_up ?rx = 0" and rx': "regcomp host_down ?rx = 0"
    by (simp_all add: host_defs)
  have del: "cmd host_up (''ip link del '' @ ''wg0'') start = (Ret (), ?st1)"
    and del': "cmd host_down (''ip link del '' @ ''wg0'') start = (Ret (), ?st1)"
    by (simp_all add: model_defs host_defs)
  have rules: "popen_r host_up (trace ?st1) ''ip rule show'' = Output [?l0, ?l1] 0 0"
    and rules': "popen_r host_down (trace ?st1) ''ip rule show'' = Output [?l0] 0 0"
    by (simp_all add: host_defs)
  have f: "find (\<lambda>l. regexec host_up ?rx l \<noteq> None) [?l0, ?l1] = Some ?l1 \<and>
           regexec host_up ?rx ?l1 = Some (26, 30)"
    by (simp add: host_defs)
  have f': "find (\<lambda>l. regexec host_down ?rx l \<noteq> None) [?l0] = None \<and> (0::int) = 0"
    by (simp add: host_defs)
  have v: "''network destroy '' @ dec (strtoul16 (substr ?l1 26 30)) = ''network destroy 4464''"
    by (simp add: model_defs)
  note a = down_destroys_binding[OF rx del rules, THEN conjunct1, rule_format, OF f]
  note b = down_destroys_binding[OF rx' del' rules', THEN conjunct2, rule_format, OF f']
  from rx del rules f v a rules' f' b show ?thesis by (simp only: simp_thms)
qed

text \<open>
  C7 as stated does not hold for every list: a single entry of 8200 characters has no
  quote and no backslash, yet no request reaches the policy daemon; the command line does
  not fit the buffer of 8192 bytes and the process ends. On this host \<^verbatim>\<open>perror\<close> leaves
  \<^verbatim>\<open>errno\<close> as it is, so that \<^verbatim>\<open>exit\<close> gets 7 (\<^verbatim>\<open>E2BIG\<close>).
\<close>

theorem dns_list_too_long:
  "fst (set_dnses host_down 4464 (replicate 8200 (CHR ''1'')) start) = Exit 7 \<and>
   (\<forall>c. PopenR c \<notin> set (trace (snd (set_dnses host_down 4464 (replicate 8200 (CHR ''1''))
                                          start))))"
proof -
  let ?d = "replicate 8200 (CHR ''1'')"
  have tok: "strtok_all dns_delims ?d = [?d]"
    unfolding strtok_all_def
    by (subst strtok_from_nodelim) (auto simp: dns_delims_def)
  have kept: "dns_kept ?d = [?d]"
    by (simp add: dns_kept_def tok)
  have long: "8192 \<le> length (''ndc '' @ dns_command 4464 ?d)"
    by (simp add: dns_command_def kept quoted_def)
  have "set_dnses host_down 4464 ?d start = cndc host_down (dns_command 4464 ?d) start"
    by (simp add: set_dnses_eq kept)
  also have "\<dots> = (Exit 7, emit (Perror ''Error: vsnprintf'')
                          (emit (Stdout (''[#] ndc '' @ dns_command 4464 ?d @ [NL])) start))"
    using long
    by (simp add: cndc_def cmd_ret_def bindp_def popen_read_def perror_exit_def E2BIG_def
                  host_down_def)
  finally show ?thesis by (simp add: emit_def start_def)
qed

text \<open>
  C7, amended. The entries of the list with a quote or a backslash are dropped and the
  others are kept in their order. When none is kept (the list is empty, or every entry is
  dropped) \<^verbatim>\<open>set_dnses\<close> does nothing at all. Otherwise it hands the policy daemon one
  request with the kept entries, each in quotes, joined by single spaces (and one more
  space at the end unless the list is a single bare entry); the request is run whenever
  its command line is shorter than the 8192 bytes of the command buffer. A command line
  of 8192 bytes or more is not run: the process prints the request, reports the error of
  \<^verbatim>\<open>vsnprintf\<close> and ends.
\<close>

theorem dns_sanitised:
  "(dns_kept dnses = [] \<longrightarrow> set_dnses env netid dnses st = (Ret (), st)) \<and>
   (dns_kept dnses \<noteq> [] \<longrightarrow>
      set_dnses env netid dnses st = cndc env (dns_command netid dnses) st) \<and>
   (dns_kept dnses \<noteq> [] \<and> length (''ndc '' @ dns_command netid dnses) < 8192 \<longrightarrow>
      (\<exists>r st'. set_dnses env netid dnses st = (r, st') \<and>
         prefix (trace st @ [Stdout (''[#] ndc '' @ dns_command netid dnses @ [NL]),
                             PopenR (''ndc '' @ dns_command netid dnses)]) (trace st'))) \<and>
   (dns_kept dnses \<noteq> [] \<and> 8192 \<le> length (''ndc '' @ dns_command netid dnses) \<longrightarrow>
      (\<exists>e. set_dnses env netid dnses st
             = (Exit e, emit (Perror ''Error: vsnprintf'')
                          (emit (Stdout (''[#] ndc '' @ dns_command netid dnses @ [NL])) st))))"
proof (intro conjI impI)
  assume "dns_kept dnses = []"
  then show "set_dnses env netid dnses st = (Ret (), st)"
    by (simp add: set_dnses_eq retp_def)
next
  assume "dns_kept dnses \<noteq> []"
  then show "set_dnses env netid dnses st = cndc env (dns_command netid dnses) st"
    by (simp add: set_dnses_eq)
next
  assume "dns_kept dnses \<noteq> [] \<and> length (''ndc '' @ dns_command netid dnses) < 8192"
  then show "\<exists>r st'. set_dnses env netid dnses st = (r, st') \<and>
         prefix (trace st @ [Stdout (''[#] ndc '' @ dns_command netid dnses @ [NL]),
                             PopenR (''ndc '' @ dns_command netid dnses)]) (trace st')"
    using cndc_issues[of "dns_command netid dnses" env st]
    by (simp add: set_dnses_eq)
next
  assume a: "dns_kept dnses \<noteq> [] \<and> 8192 \<le> length (''ndc '' @ dns_command netid dnses)"
  then have "set_dnses env netid dnses st = cndc env (dns_command netid dnses) st"
    by (simp add: set_dnses_eq)
  also have "\<dots> = (Exit (perror_errno env
                               (trace st @ [Stdout (''[#] ndc '' @ dns_command netid dnses @ [NL])])
                               E2BIG),
                     emit (Perror ''Error: vsnprintf'')
                       (emit (Stdout (''[#] ndc '' @ dns_command netid dnses @ [NL])) st))"
    using a by (simp add: cndc_def cmd_ret_def bindp_def popen_read_def perror_exit_def emit_def)
  finally show "\<exists>e. set_dnses env netid dnses st
             = (Exit e, emit (Perror ''Error: vsnprintf'')
                          (emit (Stdout (''[#] ndc '' @ dns_command netid dnses @ [NL])) st))"
    by blast
qed

text \<open>
  An entry with a quote alone: nothing is run. Three entries, the second with a
  backslash: the first and the third reach the policy daemon, in that order. An entry of
  8200 characters: the process ends before it opens a pipe.
\<close>

theorem dns_sanitised_witness:
  "dns_kept [CHR ''a'', QUOTE] = [] \<and>
   set_dnses host_down 4464 [CHR ''a'', QUOTE] start = (Ret (), start) \<and>
   dns_kept (''1.1.1.1,x'' @ [BACKSLASH] @ '',8.8.8.8'') = [''1.1.1.1'', ''8.8.8.8''] \<and>
   dns_command 4464 (''1.1.1.1,x'' @ [BACKSLASH] @ '',8.8.8.8'')
     = ''resolver setnetdns 4464 '' @ [QUOTE, QUOTE] @ '' '' @ [QUOTE] @ ''1.1.1.1'' @ [QUOTE]
       @ '' '' @ [QUOTE] @ ''8.8.8.8'' @ [QUOTE] @ '' '' \<and>
   set_dnses host_down 4464 (''1.1.1.1,x'' @ [BACKSLASH] @ '',8.8.8.8'') start
     = cndc host_down (dns_command 4464 (''1.1.1.1,x'' @ [BACKSLASH] @ '',8.8.8.8'')) start \<and>
   length (''ndc '' @ dns_command 4464 (''1.1.1.1,x'' @ [BACKSLASH] @ '',8.8.8.8'')) < 8192 \<and>
   (\<exists>r st'. set_dnses host_down 4464 (''1.1.1.1,x'' @ [BACKSLASH] @ '',8.8.8.8'') start = (r, st') \<and>
      prefix (trace start
              @ [Stdout (''[#] ndc '' @ dns_command 4464 (''1.1.1.1,x'' @ [BACKSLASH] @ '',8.8.8.8'')
                         @ [NL]),
                 PopenR (''ndc '' @ dns_command 4464 (''1.1.1.1,x'' @ [BACKSLASH] @ '',8.8.8.8''))])
             (trace st')) \<and>
   dns_kept (replicate 8200 (CHR ''1'')) = [replicate 8200 (CHR ''1'')] \<and>
   8192 \<le> length (''ndc '' @ dns_command 4464 (replicate 8200 (CHR ''1''))) \<and>
   (\<exists>e. set_dnses host_down 4464 (replicate 8200 (CHR ''1'')) start
          = (Exit e, emit (Perror ''Error: vsnprintf'')
                       (emit (Stdout (''[#] ndc '' @ dns_command 4464 (replicate 8200 (CHR ''1''))
                                      @ [NL])) start)))"
proof -
  let ?long = "replicate 8200 (CHR ''1'')"
  have tok: "strtok_all dns_delims ?long = [?long]"
    unfolding strtok_all_def
    by (subst strtok_from_nodelim) (auto simp: dns_delims_def)
  have kl: "dns_kept ?long = [?long]" by (simp add: dns_kept_def tok)
  then have nel: "dns_kept ?long \<noteq> []" by simp
  have ll: "8192 \<le> length (''ndc '' @ dns_command 4464 ?long)"
    by (simp add: dns_command_def kl quoted_def)
  note l = dns_sanitised[where env = host_down and netid = 4464 and st = start
                           and dnses = "?long", THEN conjunct2, THEN conjunct2, THEN conjunct2,
                         rule_format, OF conjI[OF nel ll]]
  let ?d = "''1.1.1.1,x'' @ [BACKSLASH] @ '',8.8.8.8''"
  have k0: "dns_kept [CHR ''a'', QUOTE] = []"
    by (simp add: dns_kept_def strtok_all_def dns_delims_def)
  have k: "dns_kept ?d = [''1.1.1.1'', ''8.8.8.8'']"
    by (simp add: dns_kept_def strtok_all_def dns_delims_def)
  have c: "dns_command 4464 ?d
     = ''resolver setnetdns 4464 '' @ [QUOTE, QUOTE] @ '' '' @ [QUOTE] @ ''1.1.1.1'' @ [QUOTE]
       @ '' '' @ [QUOTE] @ ''8.8.8.8'' @ [QUOTE] @ '' ''"
    unfolding dns_command_def k by (simp add: quoted_def dec.simps)
  have ne: "dns_kept ?d \<noteq> []" unfolding k by simp
  have len: "length (''ndc '' @ dns_command 4464 ?d) < 8192" unfolding c by simp
  note a = dns_sanitised[where env = host_down and netid = 4464 and st = start
                           and dnses = "[CHR ''a'', QUOTE]", THEN conjunct1, rule_format, OF k0]
  note b = dns_sanitised[where env = host_down and netid = 4464 and st = start and dnses = "?d",
                         THEN conjunct2, THEN conjunct1, rule_format, OF ne]
  note d = dns_sanitised[where env = host_down and netid = 4464 and st = start and dnses = "?d",
                         THEN conjunct2, THEN conjunct2, THEN conjunct1, rule_format,
                         OF conjI[OF ne len]]
  show ?thesis by (intro conjI k0 a k c b len d kl ll l)
qed

subsection \<open>The MTU that \<^verbatim>\<open>set_mtu\<close> installs\<close>

text \<open>
  What the loop of \<^verbatim>\<open>set_mtu\<close> does with the lines that its pattern matches: when the
  sampling goes through (the default route gives \<open>m0\<close>, \<open>-1\<close> if unresolved, and the loop
  over the lines ends), the request to the policy daemon sets the MTU to the minimum of
  the default-route value (1500 when \<open>m0 = -1\<close>) and the positive values sampled for the
  matched lines, minus 80. A sample is \<open>-1\<close> or a non-negative \<^verbatim>\<open>int\<close>.
\<close>

lemma set_mtu_min_of_samples:
  assumes rx: "regcomp env regex_endpoint = 0"
    and def_route: "get_route_mtu env ''default'' st = (Ret m0, st1)"
    and peers: "popen_read env (''wg show '' @ iface @ '' endpoints'') st1
                  = (Ret (lines, eof), st2)"
    and finished: "endpoint_loop env lines eof (if m0 = - 1 then 1500 else m0) st2
                     = (Ret endpoint_mtu, st3)"
    and range0: "m0 = - 1 \<or> 0 \<le> sint m0"
    and range: "\<forall>x\<in>set (peer_samples env lines st2). x = - 1 \<or> 0 \<le> sint x"
  shows "set_mtu env iface 0 st
           = cndc env (''interface setmtu '' @ iface @ '' ''
                       @ dec_int (min_mtu (if m0 = - 1 then 1500 else sint m0)
                                          (peer_samples env lines st2) - 80)) st3 \<and>
         (m0 = - 1 \<and> (\<forall>x\<in>set (peer_samples env lines st2). \<not> 0 < sint x)
            \<longrightarrow> set_mtu env iface 0 st = cndc env (''interface setmtu '' @ iface @ '' 1420'') st3)"
proof -
  let ?m = "if m0 = - 1 then 1500 else m0 :: 32 word"
  let ?xs = "peer_samples env lines st2"
  have sm: "sint ?m = (if m0 = - 1 then 1500 else sint m0)" by simp
  have nn: "0 \<le> sint ?m" using range0 by auto
  have em: "endpoint_mtu = foldl mtu_step ?m ?xs" by (rule endpoint_loop_samples[OF finished])
  have "sint (endpoint_mtu - 80) = sint endpoint_mtu - 80"
    unfolding em by (rule sint_minus_80[OF mtu_fold_nonneg[OF nn range]])
  also have "sint endpoint_mtu = min_mtu (sint ?m) ?xs"
    unfolding em by (rule mtu_fold_sint[OF nn range])
  finally have val: "sint (endpoint_mtu - 80)
                       = min_mtu (if m0 = - 1 then 1500 else sint m0) ?xs - 80"
    unfolding sm .
  have run: "set_mtu env iface 0 st
          = cndc env (''interface setmtu '' @ iface @ '' ''
                      @ dec_int (sint (endpoint_mtu - 80))) st3"
    unfolding set_mtu_def
    by (simp only: bindp_xregcomp_ok[OF rx] if_False simp_thms
                   bindp_Ret[where m = "get_route_mtu env ''default''", OF def_route]
                   bindp_Ret[where m = "popen_read env (''wg show '' @ iface @ '' endpoints'')",
                             OF peers]
                   bindp_Ret[where m = "endpoint_loop env lines eof ?m", OF finished]
                   prod.case)
  have first: "set_mtu env iface 0 st
           = cndc env (''interface setmtu '' @ iface @ '' ''
                       @ dec_int (min_mtu (if m0 = - 1 then 1500 else sint m0) ?xs - 80)) st3"
    unfolding run val ..
  have none: "min_mtu 1500 ?xs = 1500" if "\<forall>x\<in>set ?xs. \<not> 0 < sint x"
  proof -
    from that have "filter (\<lambda>x. 0 < sint x) ?xs = []" by (simp add: filter_empty_conv)
    then show ?thesis by (simp add: min_mtu_def)
  qed
  have d: "dec_int 1420 = ''1420''" by (simp add: dec_int_def dec.simps)
  show ?thesis
  proof (intro conjI impI)
    show "set_mtu env iface 0 st
           = cndc env (''interface setmtu '' @ iface @ '' ''
                       @ dec_int (min_mtu (if m0 = - 1 then 1500 else sint m0) ?xs - 80)) st3"
      by (rule first)
  next
    assume a: "m0 = - 1 \<and> (\<forall>x\<in>set ?xs. \<not> 0 < sint x)"
    then have "min_mtu (if m0 = - 1 then 1500 else sint m0) ?xs - 80 = 1420"
      using none by simp
    with first d show "set_mtu env iface 0 st
                        = cndc env (''interface setmtu '' @ iface @ '' 1420'') st3"
      by simp
  qed
qed

text \<open>
  \<open>ere_endpoint\<close> reads the pattern as it is written: it answers with offsets exactly for
  the subjects that are an optional \<^verbatim>\<open>[\<close>, a group of one or more characters of the
  class, an optional \<^verbatim>\<open>]\<close>, a colon and one or more digits, and the offsets are those of
  the group. The pattern is matched against a whole line of
  \<^verbatim>\<open>wg show <iface> endpoints\<close>, as \<^verbatim>\<open>getline\<close> returns it. A subject with a tab or a
  newline in it does not match: neither character may occur between the two anchors.
\<close>

lemma digit_suffix_split:
  "take (length s - length (rev (takeWhile P (rev s)))) s @ rev (takeWhile P (rev s)) = s"
proof -
  let ?port = "rev (takeWhile P (rev s))"
  let ?front = "rev (dropWhile P (rev s))"
  have "rev (takeWhile P (rev s) @ dropWhile P (rev s)) = rev (rev s)"
    by (simp only: takeWhile_dropWhile_id)
  then have s: "s = ?front @ ?port" by (simp only: rev_append rev_rev_ident)
  then have "length s = length ?front + length ?port" by (metis length_append)
  then have "length s - length ?port = length ?front" by simp
  then have "take (length s - length ?port) s = take (length ?front) (?front @ ?port)"
    using s by simp
  then have "take (length s - length ?port) s = ?front" by simp
  with s show ?thesis by simp
qed

lemma takeWhile_digits_rev:
  assumes "list_all P port" "\<not> P c"
  shows "rev (takeWhile P (rev (xs @ [c] @ port))) = port"
proof -
  have "\<And>x. x \<in> set (rev port) \<Longrightarrow> P x" using assms(1) by (simp add: list_all_iff)
  then have "takeWhile P (rev port @ c # rev xs) = rev port @ takeWhile P (c # rev xs)"
    by (rule takeWhile_append2)
  with assms(2) show ?thesis by simp
qed

lemma ere_endpoint_complete:
  assumes s: "s = ob @ host @ cb @ '':'' @ port"
    and ob: "ob = [] \<or> ob = ''[''" and cb: "cb = [] \<or> cb = '']''"
    and host: "host \<noteq> []" "list_all endpoint_char host"
    and port: "port \<noteq> []" "list_all isdigit port"
  shows "ere_endpoint s = Some (length ob, length ob + length host)"
proof -
  have nd: "\<not> isdigit (CHR '':'')" by (simp add: isdigit_def)
  have s': "s = (ob @ host @ cb) @ [CHR '':''] @ port" using s by simp
  have p: "rev (takeWhile isdigit (rev s)) = port"
    unfolding s' by (rule takeWhile_digits_rev[OF port(2) nd])
  have f: "take (length s - length port) s = ob @ host @ cb @ '':''"
    unfolding s by simp
  have hd_host: "endpoint_char (hd host)" and last_host: "endpoint_char (last host)"
    using host by (auto simp: list_all_iff)
  have nb: "\<not> endpoint_char (CHR ''['')" "\<not> endpoint_char (CHR '']'')"
    by (simp_all add: endpoint_char_def)
  have so: "(if take 1 (ob @ host @ cb @ '':'') = ''['' then 1 else 0) = length ob"
    using ob host(1) hd_host nb by (cases host) auto
  have bl: "butlast (ob @ host @ cb @ '':'') = ob @ host @ cb"
    by (simp add: butlast_append)
  have h1: "drop (length ob) (ob @ host @ cb) = host @ cb" by simp
  have hostv: "(if host @ cb \<noteq> [] \<and> last (host @ cb) = CHR '']'' then butlast (host @ cb)
                else host @ cb) = host"
    using cb host(1) last_host nb by (auto simp: butlast_append)
  show ?thesis
    unfolding ere_endpoint_def Let_def p f so bl h1 hostv
    using host port by simp
qed

lemma ere_endpoint_sound:
  assumes "ere_endpoint s = Some (so, eo)"
  shows "\<exists>ob host cb port. s = ob @ host @ cb @ '':'' @ port \<and>
           (ob = [] \<or> ob = ''['') \<and> (cb = [] \<or> cb = '']'') \<and>
           host \<noteq> [] \<and> list_all endpoint_char host \<and>
           port \<noteq> [] \<and> list_all isdigit port \<and>
           so = length ob \<and> eo = length ob + length host"
proof -
  define port where "port = rev (takeWhile isdigit (rev s))"
  define front where "front = take (length s - length port) s"
  define so' :: nat where "so' = (if take 1 front = ''['' then 1 else 0)"
  define h1 where "h1 = drop so' (butlast front)"
  define host where "host = (if h1 \<noteq> [] \<and> last h1 = CHR '']'' then butlast h1 else h1)"
  define cb where "cb = (if h1 \<noteq> [] \<and> last h1 = CHR '']'' then '']'' else [])"
  from assms have ok: "port \<noteq> []" "front \<noteq> []" "last front = CHR '':''" "host \<noteq> []"
      "list_all endpoint_char host" "so = so'" "eo = so' + length host"
    unfolding ere_endpoint_def Let_def port_def[symmetric] front_def[symmetric]
      so'_def[symmetric] h1_def[symmetric] host_def[symmetric]
    by (auto split: if_splits)
  have s: "s = front @ port"
    unfolding front_def port_def by (rule digit_suffix_split[symmetric])
  have pd: "list_all isdigit port"
    unfolding port_def list_all_iff using set_takeWhileD by fastforce
  have fr: "front = butlast front @ '':''"
    using ok(2,3) by (metis append_butlast_last_id)
  have bf: "butlast front = take so' (butlast front) @ h1"
    unfolding h1_def by simp
  have hc: "h1 = host @ cb"
  proof (cases "h1 \<noteq> [] \<and> last h1 = CHR '']''")
    case True
    then have "butlast h1 @ [last h1] = h1" by (intro append_butlast_last_id) simp
    with True show ?thesis by (simp add: host_def cb_def)
  next
    case False
    then have "host = h1" and "cb = []" by (auto simp: host_def cb_def)
    then show ?thesis by simp
  qed
  have ob: "(take so' (butlast front) = [] \<or> take so' (butlast front) = ''['') \<and>
            so' = length (take so' (butlast front))"
  proof (cases "take 1 front = ''[''")
    case True
    then obtain rest where f: "front = CHR ''['' # rest" by (cases front) auto
    with ok(3) have "rest \<noteq> []" by auto
    with f have "take 1 (butlast front) = ''[''" by simp
    with True show ?thesis by (simp add: so'_def)
  next
    case False
    then show ?thesis by (simp add: so'_def)
  qed
  have dec: "s = take so' (butlast front) @ host @ cb @ '':'' @ port"
    by (subst s, subst fr, subst bf, subst hc) simp
  have cbv: "cb = [] \<or> cb = '']''" by (simp add: cb_def)
  from ob have obv: "take so' (butlast front) = [] \<or> take so' (butlast front) = ''[''"
    and sov: "so = length (take so' (butlast front))"
    using ok(6) by simp_all
  from ob ok(7) have eov: "eo = length (take so' (butlast front)) + length host" by simp
  show ?thesis
    by (intro exI[of _ "take so' (butlast front)"] exI[of _ host] exI[of _ cb] exI[of _ port]
              conjI dec obv cbv ok(4) ok(5) ok(1) pd sov eov)
qed

lemma ere_endpoint_iff:
  "ere_endpoint s = Some (so, eo) \<longleftrightarrow>
     (\<exists>ob host cb port. s = ob @ host @ cb @ '':'' @ port \<and>
        (ob = [] \<or> ob = ''['') \<and> (cb = [] \<or> cb = '']'') \<and>
        host \<noteq> [] \<and> list_all endpoint_char host \<and>
        port \<noteq> [] \<and> list_all isdigit port \<and>
        so = length ob \<and> eo = length ob + length host)"
proof
  assume "ere_endpoint s = Some (so, eo)"
  then show "\<exists>ob host cb port. s = ob @ host @ cb @ '':'' @ port \<and>
        (ob = [] \<or> ob = ''['') \<and> (cb = [] \<or> cb = '']'') \<and>
        host \<noteq> [] \<and> list_all endpoint_char host \<and>
        port \<noteq> [] \<and> list_all isdigit port \<and>
        so = length ob \<and> eo = length ob + length host"
    by (rule ere_endpoint_sound)
next
  assume "\<exists>ob host cb port. s = ob @ host @ cb @ '':'' @ port \<and>
        (ob = [] \<or> ob = ''['') \<and> (cb = [] \<or> cb = '']'') \<and>
        host \<noteq> [] \<and> list_all endpoint_char host \<and>
        port \<noteq> [] \<and> list_all isdigit port \<and>
        so = length ob \<and> eo = length ob + length host"
  then obtain ob host cb port where "s = ob @ host @ cb @ '':'' @ port"
    "ob = [] \<or> ob = ''[''" "cb = [] \<or> cb = '']''" "host \<noteq> []" "list_all endpoint_char host"
    "port \<noteq> []" "list_all isdigit port" "so = length ob" "eo = length ob + length host"
    by blast
  then show "ere_endpoint s = Some (so, eo)"
    using ere_endpoint_complete[of s ob host cb port] by simp
qed

lemma ere_endpoint_chars:
  assumes "ere_endpoint s = Some (so, eo)"
  shows "\<forall>c\<in>set s. isdigit c \<or> endpoint_char c \<or> c = CHR ''['' \<or> c = CHR '']''"
proof -
  from ere_endpoint_sound[OF assms] obtain ob host cb port
    where s: "s = ob @ host @ cb @ '':'' @ port"
      and ob: "ob = [] \<or> ob = ''[''" and cb: "cb = [] \<or> cb = '']''"
      and host: "list_all endpoint_char host" and port: "list_all isdigit port"
    by blast
  have colon: "endpoint_char (CHR '':'')" by (simp add: endpoint_char_def)
  show ?thesis
    unfolding s using ob cb host port colon by (auto simp: list_all_iff)
qed

lemma ere_endpoint_line:
  assumes "TAB \<in> set s \<or> NL \<in> set s"
  shows "ere_endpoint s = None"
proof (cases "ere_endpoint s")
  case (Some p)
  obtain so eo where "p = (so, eo)" by (cases p)
  with Some have "\<forall>c\<in>set s. isdigit c \<or> endpoint_char c \<or> c = CHR ''['' \<or> c = CHR '']''"
    by (intro ere_endpoint_chars) simp
  moreover have "\<not> (isdigit NL \<or> endpoint_char NL \<or> NL = CHR ''['' \<or> NL = CHR '']'')"
    by (simp add: isdigit_def endpoint_char_def)
  moreover have "\<not> (isdigit TAB \<or> endpoint_char TAB \<or> TAB = CHR ''['' \<or> TAB = CHR '']'')"
    by (simp add: isdigit_def endpoint_char_def)
  ultimately show ?thesis using assms by blast
qed simp

text \<open>
  \<^verbatim>\<open>wg show <iface> endpoints\<close> prints one line for each peer: the public key, a tab,
  the endpoint, a newline. So with a C library whose \<^verbatim>\<open>regexec\<close> is as POSIX has it,
  the loop of \<^verbatim>\<open>set_mtu\<close> passes over every line, samples no peer, and the request sets
  the default-route value (1500 when unresolved) minus 80, whatever the routes to the
  peers are.
\<close>

lemma endpoint_loop_no_match:
  assumes "\<forall>l\<in>set lines. regexec env regex_endpoint l = None"
  shows "peer_samples env lines st = [] \<and>
         endpoint_loop env lines eof m = bindp (end_of_stream env eof) (\<lambda>_. retp m)"
  using assms by (induction lines arbitrary: st) simp_all

lemma set_mtu_samples_no_peer:
  assumes rx: "regcomp env regex_endpoint = 0"
    and libc: "\<forall>s. regexec env regex_endpoint s = ere_endpoint s"
    and def_route: "get_route_mtu env ''default'' st = (Ret m0, st1)"
    and peers: "popen_read env (''wg show '' @ iface @ '' endpoints'') st1
                  = (Ret (lines, 0), st2)"
    and wg: "\<forall>l\<in>set lines. TAB \<in> set l \<or> NL \<in> set l"
  shows "set_mtu env iface 0 st
           = cndc env (''interface setmtu '' @ iface @ '' ''
                       @ dec_int (sint ((if m0 = - 1 then 1500 else m0) - 80))) st2"
proof -
  let ?m = "if m0 = - 1 then 1500 else m0 :: 32 word"
  have "\<forall>l\<in>set lines. regexec env regex_endpoint l = None"
    using libc wg ere_endpoint_line by simp
  then have "endpoint_loop env lines 0 ?m = bindp (end_of_stream env 0) (\<lambda>_. retp ?m)"
    using endpoint_loop_no_match by blast
  then have loop: "endpoint_loop env lines 0 ?m st2 = (Ret ?m, st2)"
    by (simp add: bindp_def end_of_stream_def retp_def)
  show ?thesis
    unfolding set_mtu_def
    by (simp only: bindp_xregcomp_ok[OF rx] if_False simp_thms
                   bindp_Ret[where m = "get_route_mtu env ''default''", OF def_route]
                   bindp_Ret[where m = "popen_read env (''wg show '' @ iface @ '' endpoints'')",
                             OF peers]
                   bindp_Ret[where m = "endpoint_loop env lines 0 ?m", OF loop]
                   prod.case)
qed

text \<open>
  C2 is what \<^verbatim>\<open>set_mtu\<close> sets out to do, and misses. On the host without \<^verbatim>\<open>wg0\<close> the
  default route goes over a device with MTU 1500 and the peer at \<^verbatim>\<open>192.0.2.7:51820\<close>
  is behind a route with MTU 1400, which is what \<^verbatim>\<open>get_route_mtu\<close> returns for it; the
  minimum of the two minus 80 is 1320. But \<^verbatim>\<open>set_mtu\<close> with the descriptor MTU zero
  sets 1420: the line that \<^verbatim>\<open>wg show\<close> prints for the peer does not match the pattern,
  so the process never asks for the route to the peer. All it does is read the default
  route, the device of that route and the list of the endpoints, and send the request.
\<close>

theorem set_mtu_ignores_peer_route:
  "fst (get_route_mtu host_down ''default'' start) = Ret 1500 \<and>
   popen_r host_down (trace (snd (get_route_mtu host_down ''default'' start)))
       ''wg show wg0 endpoints''
     = Output [peer_a @ [TAB] @ ''(none)'' @ [NL],
               peer_b @ [TAB] @ ''192.0.2.7:51820'' @ [NL]] 0 0 \<and>
   regexec host_down regex_endpoint (peer_b @ [TAB] @ ''192.0.2.7:51820'' @ [NL]) = None \<and>
   fst (get_route_mtu host_down ''192.0.2.7'' start) = Ret 1400 \<and>
   min_mtu 1500 [1400] - 80 = 1320 \<and>
   fst (set_mtu host_down ''wg0'' 0 start) = Ret () \<and>
   trace (snd (set_mtu host_down ''wg0'' 0 start))
     = [PopenR ''ip -o route show default'',
        PopenR ''ip -o link show dev eth0'',
        PopenR ''wg show wg0 endpoints'',
        Stdout (''[#] ndc interface setmtu wg0 1420'' @ [NL]),
        PopenR ''ndc interface setmtu wg0 1420'']"
proof -
  have a: "fst (get_route_mtu host_down ''default'' start) = Ret 1500"
    by (simp add: model_defs host_defs)
  have b: "popen_r host_down (trace (snd (get_route_mtu host_down ''default'' start)))
             ''wg show wg0 endpoints''
           = Output [peer_a @ [TAB] @ ''(none)'' @ [NL],
                     peer_b @ [TAB] @ ''192.0.2.7:51820'' @ [NL]] 0 0"
    by (simp add: host_down_def host_pipes_def)
  have c: "regexec host_down regex_endpoint (peer_b @ [TAB] @ ''192.0.2.7:51820'' @ [NL]) = None"
    by (simp add: host_down_def libc_regexec_def ere_endpoint_line)
  have d: "fst (get_route_mtu host_down ''192.0.2.7'' start) = Ret 1400"
    by (simp add: model_defs host_defs)
  have e: "min_mtu 1500 [1400] - 80 = 1320" by (simp add: min_mtu_def)
  have f: "set_mtu host_down ''wg0'' 0 start
           = (Ret (), start\<lparr>trace :=
               [PopenR ''ip -o route show default'',
                PopenR ''ip -o link show dev eth0'',
                PopenR ''wg show wg0 endpoints'',
                Stdout (''[#] ndc interface setmtu wg0 1420'' @ [NL]),
                PopenR ''ndc interface setmtu wg0 1420'']\<rparr>)"
    by (simp add: model_defs host_defs)
  from a b c d e f show ?thesis by simp
qed

end
